theory Spec2Isabelle
  imports Main "HOL-Library.Sublist"
begin

section \<open>JavaScript values and strings\<close>

text \<open>
  The values that flow through the translator, the value resolver and the invoker are
  JSON-like trees. An object is an association list in the order in which JavaScript
  enumerates its own properties (\<^verbatim>\<open>Object.entries\<close>, \<^verbatim>\<open>for ... in\<close>);
  \<open>JUndef\<close> is \<^verbatim>\<open>undefined\<close> (also a hole of a sparse array). An array holds
  its elements and, second, the named properties that assignments have stored on it
  (\<^verbatim>\<open>JSON.parse\<close> gives an array none, and \<^verbatim>\<open>JSON.stringify\<close> does not print
  them).
\<close>

datatype json =
    JUndef
  | JNull
  | JBool bool
  | JNum int
  | JStr string
  | JArr "json list" "(string \<times> json) list"
  | JObj "(string \<times> json) list"

text \<open>
  \<^verbatim>\<open>String.prototype.toUpperCase\<close> and \<^verbatim>\<open>toLowerCase\<close> on the ASCII letters;
  every other character is kept.
\<close>

definition lower_letters :: string where
  "lower_letters = ''abcdefghijklmnopqrstuvwxyz''"

definition upper_letters :: string where
  "upper_letters = ''ABCDEFGHIJKLMNOPQRSTUVWXYZ''"

definition upper_char :: "char \<Rightarrow> char" where
  "upper_char c = (case map_of (zip lower_letters upper_letters) c of Some u \<Rightarrow> u | None \<Rightarrow> c)"

definition lower_char :: "char \<Rightarrow> char" where
  "lower_char c = (case map_of (zip upper_letters lower_letters) c of Some l \<Rightarrow> l | None \<Rightarrow> c)"

definition toUpperCase :: "string \<Rightarrow> string" where
  "toUpperCase s = map upper_char s"

definition toLowerCase :: "string \<Rightarrow> string" where
  "toLowerCase s = map lower_char s"

section \<open>Operations and tool descriptors\<close>

text \<open>
  An OpenAPI parameter object, as \<^verbatim>\<open>processOperationParameters\<close> reads it:
  \<open>p_schema\<close> is the \<^verbatim>\<open>schema\<close> member (when present and truthy) with its optional
  \<^verbatim>\<open>type\<close>; \<open>p_type\<close> is the OpenAPI v2 \<^verbatim>\<open>type\<close> member (\<open>Some None\<close>: the key
  is present with a falsy value).
\<close>

record parameter =
  p_name :: string
  p_in :: string
  p_required :: bool
  p_description :: "string option"
  p_schema :: "string option option"
  p_type :: "string option option"

text \<open>
  The JSON request body \<^verbatim>\<open>requestBody.content["application/json"].schema\<close>:
  its \<^verbatim>\<open>properties\<close> (name and property schema) and its \<^verbatim>\<open>required\<close> list.
\<close>

record body_schema =
  b_properties :: "(string \<times> json) list option"
  b_required :: "string list option"

text \<open>An operation with the extension members of \<^verbatim>\<open>OperationExtensionSchema\<close>.\<close>

record operation =
  operationId :: "string option"
  tags :: "string list option"
  parameters :: "parameter list option"
  requestBody :: "body_schema option"
  x_sensitive_params :: "(string \<times> string) list option"
  x_remap_path_to_header :: "string list option"
  x_custom_base_url :: "string option"
  x_include_response_keys :: "string list option"
  x_exclude_response_keys :: "string list option"
  x_sensitive_response_fields :: "string list option"

text \<open>
  One entry of \<^verbatim>\<open>inputSchema.properties.inputParams.properties\<close>: a typed entry
  \<^verbatim>\<open>{type, description}\<close>, the sentinel entry \<^verbatim>\<open>{const, description}\<close>, or a
  request-body property schema stored as it is.
\<close>

datatype schema_entry =
    TypeEntry string string
  | ConstEntry string string
  | BodyEntry json

record param_schema =
  s_properties :: "(string \<times> schema_entry) list"
  s_required :: "string list"

text \<open>
  \<^verbatim>\<open>ExtendedAIToolSchema\<close>: \<open>t_method\<close> and \<open>t_path\<close> are \<^verbatim>\<open>tool.method\<close> and
  \<^verbatim>\<open>tool.path\<close>, \<open>meta_method\<close> and \<open>meta_path\<close> are \<^verbatim>\<open>tool._meta\<close>,
  \<open>pathParams\<close> and \<open>inputParams\<close> the two sub-schemas of \<^verbatim>\<open>inputSchema.properties\<close>,
  \<open>t_required\<close> is \<^verbatim>\<open>inputSchema.required\<close> and \<open>rawOperation\<close> is \<^verbatim>\<open>_rawOperation\<close>.
\<close>

record tool =
  t_name :: string
  t_method :: "string option"
  t_path :: string
  meta_method :: string
  meta_path :: string
  pathParams :: param_schema
  inputParams :: param_schema
  t_required :: "string list option"
  rawOperation :: operation

text \<open>
  The specification document with its extension members. \<open>servers\<close> holds the server
  URLs in order, \<open>securityScheme_TencentCloudAuth\<close> says whether
  \<^verbatim>\<open>components.securitySchemes.TencentCloudAuth\<close> is declared. A path item maps its
  keys to operations; \<^verbatim>\<open>filterSpec\<close> and the translator read only the keys that are
  one of the five HTTP methods.
\<close>

record proxy_config =
  proxy_url :: string
  proxy_param :: string

record tc_auth =
  tc_secretId :: "string option"
  tc_secretKey :: "string option"
  tc_token :: "string option"
  tc_service :: "string option"
  tc_region :: "string option"
  tc_version :: "string option"
  tc_action :: "string option"

record request_config =
  baseUrl :: "string option"
  proxy :: "proxy_config option"
  rc_headers :: "(string \<times> string) list option"
  timeout :: "int option"
  retries :: "int option"
  auth_TencentCloudAuth :: "tc_auth option"

record response_config =
  maxLength :: "int option"
  includeResponseKeys :: "string list option"
  excludeResponseKeys :: "string list option"
  sensitiveResponseFields :: "string list option"

record filter_rule =
  pathPattern :: "string option"
  methodPattern :: "string option"
  operationIdPattern :: "string option"
  rule_tags :: "string list option"
  exclude :: "bool option"

record spec_document =
  x_filter_rules :: "filter_rule list option"
  x_request_config :: "request_config option"
  x_response_config :: "response_config option"
  servers :: "string list"
  securityScheme_TencentCloudAuth :: bool
  paths :: "(string \<times> (string \<times> operation) list) list"

section \<open>Translator: unique tool names\<close>

text \<open>
  \<^verbatim>\<open>ensureUniqueToolNames\<close> maps over the tools with a counter per name. The counter is
  looked up and incremented under the name the tool has when it is visited, that is its
  base name; a renamed tool's new name is never entered into the counter.
\<close>

definition renamed :: "tool \<Rightarrow> string" where
  "renamed t = t_name t @ '' ['' @ toUpperCase (meta_method t) @ '']''"

fun uniqueNamesFrom :: "(string \<rightharpoonup> nat) \<Rightarrow> tool list \<Rightarrow> tool list" where
  "uniqueNamesFrom nameCount [] = []"
| "uniqueNamesFrom nameCount (t # ts) =
     (case nameCount (t_name t) of
        None \<Rightarrow> t # uniqueNamesFrom (nameCount(t_name t \<mapsto> 1)) ts
      | Some c \<Rightarrow>
          (if c = 0 then t # uniqueNamesFrom (nameCount(t_name t \<mapsto> 1)) ts
           else t\<lparr>t_name := renamed t\<rparr> # uniqueNamesFrom (nameCount(t_name t \<mapsto> c + 1)) ts))"

definition ensureUniqueToolNames :: "tool list \<Rightarrow> tool list" where
  "ensureUniqueToolNames tools = uniqueNamesFrom Map.empty tools"

text \<open>
  The tool that \<^verbatim>\<open>createBasicToolSchema\<close> returns for a name, a method, a path and an
  operation, with the \<^verbatim>\<open>method\<close> and \<^verbatim>\<open>path\<close> members that the translator sets
  before it adds the tool to its list.
\<close>

definition no_extensions :: operation where
  "no_extensions = \<lparr>operationId = None, tags = None, parameters = None, requestBody = None,
     x_sensitive_params = None, x_remap_path_to_header = None, x_custom_base_url = None,
     x_include_response_keys = None, x_exclude_response_keys = None,
     x_sensitive_response_fields = None\<rparr>"

definition basicTool :: "string \<Rightarrow> string \<Rightarrow> string \<Rightarrow> operation \<Rightarrow> tool" where
  "basicTool nm m p operation =
     \<lparr>t_name = nm, t_method = Some (toUpperCase m), t_path = p, meta_method = m, meta_path = p,
      pathParams = \<lparr>s_properties = [], s_required = []\<rparr>,
      inputParams = \<lparr>s_properties = [], s_required = []\<rparr>,
      t_required = None, rawOperation = operation\<rparr>"

section \<open>Value Resolver: templates and scripts\<close>

text \<open>
  The environments are dictionaries from names to strings: \<open>penv\<close> is the process
  environment (\<^verbatim>\<open>process.env\<close>), \<open>env\<close> the mapping the caller supplies. A dictionary
  is given by its own string-valued properties. Both are objects that inherit from
  \<^verbatim>\<open>Object.prototype\<close>, so an index expression \<^verbatim>\<open>dictionary[name]\<close> with the name
  of an inherited member finds that member when the dictionary has no own property of
  the name.
\<close>

type_synonym environment = "string \<rightharpoonup> string"

text \<open>
  The members of \<^verbatim>\<open>Object.prototype\<close>. All are truthy: \<^verbatim>\<open>__proto__\<close> reads the
  prototype object, the others are functions. \<open>inheritedMember\<close> is the text that the
  conversion to a string gives for the member, as V8 (the engine under Deno and Node)
  prints it.
\<close>

definition inheritedFunctions :: "string list" where
  "inheritedFunctions =
     [''constructor'', ''hasOwnProperty'', ''isPrototypeOf'', ''propertyIsEnumerable'',
      ''toLocaleString'', ''toString'', ''valueOf'', ''__defineGetter__'', ''__defineSetter__'',
      ''__lookupGetter__'', ''__lookupSetter__'']"

definition inheritedMember :: "string \<Rightarrow> string option" where
  "inheritedMember n =
     (if n = ''__proto__'' then Some ''[object Object]''
      else if n = ''constructor'' then Some ''function Object() { [native code] }''
      else if n \<in> set inheritedFunctions then Some (''function '' @ n @ ''() { [native code] }'')
      else None)"

text \<open>
  \<^verbatim>\<open>dictionary[name]\<close>, as far as the template callback uses it: the own property, or
  else the text of the inherited member, or else nothing (\<^verbatim>\<open>undefined\<close>).
\<close>

definition memberOf :: "environment \<Rightarrow> string \<Rightarrow> string option" where
  "memberOf dictionary n = (case dictionary n of Some v \<Rightarrow> Some v | None \<Rightarrow> inheritedMember n)"

definition digit_chars :: string where
  "digit_chars = ''0123456789''"

text \<open>The character classes \<^verbatim>\<open>[A-Za-z_]\<close> and \<^verbatim>\<open>[A-Za-z0-9_]\<close> of the template regex.\<close>

definition ident_start :: "char \<Rightarrow> bool" where
  "ident_start c = (c \<in> set (lower_letters @ upper_letters @ ''_''))"

definition ident_char :: "char \<Rightarrow> bool" where
  "ident_char c = (c \<in> set (lower_letters @ upper_letters @ digit_chars @ ''_''))"

definition is_identifier :: "string \<Rightarrow> bool" where
  "is_identifier n = (n \<noteq> [] \<and> ident_start (hd n) \<and> list_all ident_char n)"

text \<open>\<^verbatim>\<open>a || b\<close> on an optional string: an absent or empty \<open>a\<close> is falsy.\<close>

definition js_or :: "string option \<Rightarrow> string \<Rightarrow> string" where
  "js_or a b = (case a of None \<Rightarrow> b | Some s \<Rightarrow> if s = [] then b else s)"

text \<open>
  The replacement callback: \<^verbatim>\<open>process.env[envVar] || env[envVar] || ""\<close>. What it
  returns is converted to a string by \<^verbatim>\<open>replace\<close>.
\<close>

definition templateValue :: "environment \<Rightarrow> environment \<Rightarrow> string \<Rightarrow> string" where
  "templateValue penv env envVar = js_or (memberOf penv envVar) (js_or (memberOf env envVar) [])"

text \<open>
  \<^verbatim>\<open>value.replace(/\{([A-Za-z_][A-Za-z0-9_]*)\}/g, callback)\<close>: a left-to-right scan.
  At an opening brace the regex matches exactly when the longest run of identifier
  characters that follows is not empty, starts with a letter or an underscore and is
  closed by a brace (the closing brace is no identifier character, so a shorter run
  cannot match either); the scan resumes after the match, and the replacement text is
  not scanned again. Everywhere else the character is copied.
\<close>

function processTemplateVariables :: "environment \<Rightarrow> environment \<Rightarrow> string \<Rightarrow> string" where
  "processTemplateVariables penv env [] = []"
| "processTemplateVariables penv env (c # s) =
     (let envVar = takeWhile ident_char s; rest = dropWhile ident_char s in
      if c = CHR ''{'' \<and> envVar \<noteq> [] \<and> ident_start (hd envVar) \<and> rest \<noteq> [] \<and> hd rest = CHR ''}''
      then templateValue penv env envVar @ processTemplateVariables penv env (tl rest)
      else c # processTemplateVariables penv env s)"
  by pat_completeness auto
termination
  by (relation "measure (\<lambda>(penv, env, s). length s)")
     (auto simp: less_Suc_eq_le intro: le_trans [OF _ length_dropWhile_le] diff_le_self)


text \<open>
  \<^verbatim>\<open>isScript\<close>: the trimmed value starts with \<^verbatim>\<open>#!\<close>. \<^verbatim>\<open>trim\<close> removes the ASCII
  white space (space, tab, line feed, vertical tab, form feed, carriage return).
\<close>

definition js_space :: "char \<Rightarrow> bool" where
  "js_space c = (c \<in> set [CHR '' '', CHR 0x09, CHR 0x0A, CHR 0x0B, CHR 0x0C, CHR 0x0D])"

definition trim :: "string \<Rightarrow> string" where
  "trim s = rev (dropWhile js_space (rev (dropWhile js_space s)))"

definition isScript :: "string \<Rightarrow> bool" where
  "isScript v = (take 2 (trim v) = ''#!'')"

text \<open>
  Running a script is the platform's part: the runner gets the script text and the merged
  environment \<^verbatim>\<open>{...process.env, ...env}\<close> and either fails to spawn the process or
  reports the exit code (absent when a signal ended the process), the standard output
  and the standard error.
\<close>

datatype run_result = Exited "int option" string string | SpawnError string

type_synonym runner = "string \<Rightarrow> environment \<Rightarrow> run_result"

definition executeScript :: "runner \<Rightarrow> environment \<Rightarrow> string \<Rightarrow> environment \<Rightarrow> string + string" where
  "executeScript run penv script env =
     (case run script (penv ++ env) of
        SpawnError m \<Rightarrow> Inl (''Failed to execute script: '' @ m)
      | Exited code out err \<Rightarrow>
          (if (case code of None \<Rightarrow> 0 | Some n \<Rightarrow> n) \<noteq> 0
           then Inl (''Failed to execute script: Script execution failed: '' @ err)
           else Inr out))"

definition processStringValue :: "runner \<Rightarrow> environment \<Rightarrow> string \<Rightarrow> environment \<Rightarrow> string + string" where
  "processStringValue run penv v env =
     (if isScript v then executeScript run penv v env
      else Inr (processTemplateVariables penv env v))"

text \<open>\<^verbatim>\<open>obj[k] = v\<close> on an object: an existing key keeps its place, a new key is added last.\<close>

fun assign :: "('k \<times> 'v) list \<Rightarrow> 'k \<Rightarrow> 'v \<Rightarrow> ('k \<times> 'v) list" where
  "assign [] k v = [(k, v)]"
| "assign ((k', v') # kvs) k v = (if k' = k then (k, v) # kvs else (k', v') # assign kvs k v)"

text \<open>
  \<^verbatim>\<open>processValue\<close>: a string is resolved, an array element by element, an object entry
  by entry into \<^verbatim>\<open>processedObject\<close>, anything else is returned as it is. An error
  (a rejected promise) ends the resolution at once.
\<close>

fun processValue :: "runner \<Rightarrow> environment \<Rightarrow> json \<Rightarrow> environment \<Rightarrow> string + json"
and processItems :: "runner \<Rightarrow> environment \<Rightarrow> json list \<Rightarrow> environment \<Rightarrow> string + json list"
and processEntries ::
  "runner \<Rightarrow> environment \<Rightarrow> (string \<times> json) list \<Rightarrow> environment \<Rightarrow> (string \<times> json) list
     \<Rightarrow> string + (string \<times> json) list"
where
  "processValue run penv (JStr s) env =
     (case processStringValue run penv s env of Inl e \<Rightarrow> Inl e | Inr r \<Rightarrow> Inr (JStr r))"
| "processValue run penv (JArr xs named) env =
     (case processItems run penv xs env of Inl e \<Rightarrow> Inl e | Inr ys \<Rightarrow> Inr (JArr ys []))"
| "processValue run penv (JObj kvs) env =
     (case processEntries run penv kvs env [] of Inl e \<Rightarrow> Inl e | Inr obj \<Rightarrow> Inr (JObj obj))"
| "processValue run penv v env = Inr v"
| "processItems run penv [] env = Inr []"
| "processItems run penv (x # xs) env =
     (case processValue run penv x env of
        Inl e \<Rightarrow> Inl e
      | Inr y \<Rightarrow> (case processItems run penv xs env of Inl e \<Rightarrow> Inl e | Inr ys \<Rightarrow> Inr (y # ys)))"
| "processEntries run penv [] env processedObject = Inr processedObject"
| "processEntries run penv ((key, val) # kvs) env processedObject =
     (case processValue run penv val env of
        Inl e \<Rightarrow> Inl e
      | Inr r \<Rightarrow> processEntries run penv kvs env (assign processedObject key r))"

text \<open>\<^verbatim>\<open>key.replace(/-/g, "_")\<close> and \<^verbatim>\<open>headerKeyToEnvVar\<close>.\<close>

definition dashesToUnderscores :: "string \<Rightarrow> string" where
  "dashesToUnderscores k = map (\<lambda>c. if c = CHR ''-'' then CHR ''_'' else c) k"

definition headerKeyToEnvVar :: "string \<Rightarrow> string" where
  "headerKeyToEnvVar headerKey = dashesToUnderscores (toLowerCase headerKey)"

text \<open>
  \<^verbatim>\<open>processHeaders\<close>: the loop over the headers, with the local \<^verbatim>\<open>env\<close> and
  \<^verbatim>\<open>processedHeaders\<close> as arguments. After each header its result is stored in
  \<^verbatim>\<open>env\<close> under both aliases of the key.
\<close>

definition withAliases :: "environment \<Rightarrow> string \<Rightarrow> string \<Rightarrow> environment" where
  "withAliases env key result = (env(headerKeyToEnvVar key \<mapsto> result))(dashesToUnderscores key \<mapsto> result)"

fun processHeadersFrom ::
  "runner \<Rightarrow> environment \<Rightarrow> environment \<Rightarrow> (string \<times> string) list \<Rightarrow> (string \<times> string) list
     \<Rightarrow> string + (string \<times> string) list" where
  "processHeadersFrom run penv env processedHeaders [] = Inr processedHeaders"
| "processHeadersFrom run penv env processedHeaders ((key, v) # hs) =
     (case processStringValue run penv v env of
        Inl e \<Rightarrow> Inl e
      | Inr result \<Rightarrow>
          processHeadersFrom run penv (withAliases env key result) (assign processedHeaders key result) hs)"

definition processHeaders :: "runner \<Rightarrow> environment \<Rightarrow> (string \<times> string) list \<Rightarrow> string + (string \<times> string) list" where
  "processHeaders run penv headers = processHeadersFrom run penv Map.empty [] headers"

text \<open>
  \<^verbatim>\<open>processRequestValues\<close>: the headers first, then the path and the input parameters,
  each through \<^verbatim>\<open>processValue\<close> with its default environment \<^verbatim>\<open>{}\<close>. (When both of
  the concurrent resolutions fail, the model reports the path parameters' error.)
\<close>

definition processRequestValues ::
  "runner \<Rightarrow> environment \<Rightarrow> (string \<times> string) list \<Rightarrow> (string \<times> json) list \<Rightarrow> (string \<times> json) list
     \<Rightarrow> string + ((string \<times> string) list \<times> json \<times> json)" where
  "processRequestValues run penv headers pathParams' inputParams' =
     (case processHeaders run penv headers of
        Inl e \<Rightarrow> Inl e
      | Inr processedHeaders \<Rightarrow>
          (case processValue run penv (JObj pathParams') Map.empty of
             Inl e \<Rightarrow> Inl e
           | Inr processedPathParams \<Rightarrow>
               (case processValue run penv (JObj inputParams') Map.empty of
                  Inl e \<Rightarrow> Inl e
                | Inr processedInputParams \<Rightarrow>
                    Inr (processedHeaders, processedPathParams, processedInputParams))))"

text \<open>
  The environment that header resolution has built after the headers \<open>resolved\<close>
  (keys with their results, in order).
\<close>

definition headerEnv :: "(string \<times> string) list \<Rightarrow> environment" where
  "headerEnv resolved = foldl (\<lambda>env (key, result). withAliases env key result) Map.empty resolved"


text \<open>Two platforms for examples: one cannot spawn any script, one prints a variable.\<close>

definition noSpawn :: runner where
  "noSpawn script env = SpawnError ''spawn ENOENT''"


text \<open>One entry of an object, resolved under the environment \<open>env\<close>.\<close>

definition resolveEntry :: "runner \<Rightarrow> environment \<Rightarrow> environment \<Rightarrow> string \<times> json \<Rightarrow> string + (string \<times> json)" where
  "resolveEntry run penv env kv =
     (case processValue run penv (snd kv) env of Inl e \<Rightarrow> Inl e | Inr r \<Rightarrow> Inr (fst kv, r))"

section \<open>Invoker: response post-processing\<close>

definition SENSITIVE_MARK :: string where
  "SENSITIVE_MARK = ''*SENSITIVE*''"

text \<open>
  Modelled from the spec: the functions \<^verbatim>\<open>isObject\<close>, \<^verbatim>\<open>has\<close>, \<^verbatim>\<open>get\<close>,
  \<^verbatim>\<open>set\<close> and \<^verbatim>\<open>unset\<close> that \<^verbatim>\<open>invoker.ts\<close> imports from the library
  \<^verbatim>\<open>es-toolkit\<close>, which is not part of the repository. The specification's dot-path is
  a string like \<^verbatim>\<open>a.b.c\<close> that addresses a nested property: the path is split at its
  dots, and each segment is a key of an object or an index of an array (or the name of a
  property stored on an array). These are the properties the functions see here; the
  \<^verbatim>\<open>length\<close> of an array, the characters and the length of a string, inherited
  members, and keys that themselves contain a dot or a bracket are not addressed.
\<close>

fun isObject :: "json \<Rightarrow> bool" where
  "isObject (JObj kvs) = True"
| "isObject (JArr xs named) = True"
| "isObject v = False"

fun splitOn :: "char \<Rightarrow> string \<Rightarrow> string list" where
  "splitOn sep [] = [[]]"
| "splitOn sep (c # s) =
     (if c = sep then [] # splitOn sep s
      else (case splitOn sep s of [] \<Rightarrow> [[c]] | w # ws \<Rightarrow> (c # w) # ws))"

definition splitPath :: "string \<Rightarrow> string list" where
  "splitPath pathString = splitOn (CHR ''.'') pathString"

text \<open>
  An array index is a key that is the decimal numeral of a number: it matches
  \<^verbatim>\<open>/^(?:0|[1-9]\d*)$/\<close>; \<open>index_of\<close> is its number.
\<close>

definition isIndex :: "string \<Rightarrow> bool" where
  "isIndex k = (k \<noteq> [] \<and> list_all (\<lambda>c. c \<in> set digit_chars) k \<and> (k = ''0'' \<or> hd k \<noteq> CHR ''0''))"

definition digit_value :: "char \<Rightarrow> nat" where
  "digit_value c = (case map_of (zip digit_chars [0 ..< 10]) c of Some d \<Rightarrow> d | None \<Rightarrow> 0)"

definition index_of :: "string \<Rightarrow> nat option" where
  "index_of k = (if isIndex k then Some (foldl (\<lambda>n c. 10 * n + digit_value c) 0 k) else None)"

text \<open>
  \<open>readKey v k\<close> is the property read \<^verbatim>\<open>v[k]\<close>, \<open>hasKey v k\<close> the own-property test
  of \<^verbatim>\<open>has\<close>, for which a hole of an array counts as present.
\<close>

fun readKey :: "json \<Rightarrow> string \<Rightarrow> json" where
  "readKey (JObj kvs) k = (case map_of kvs k of Some v \<Rightarrow> v | None \<Rightarrow> JUndef)"
| "readKey (JArr xs named) k =
     (case index_of k of
        Some i \<Rightarrow> if i < length xs then xs ! i else JUndef
      | None \<Rightarrow> (case map_of named k of Some v \<Rightarrow> v | None \<Rightarrow> JUndef))"
| "readKey v k = JUndef"

fun hasKey :: "json \<Rightarrow> string \<Rightarrow> bool" where
  "hasKey (JObj kvs) k = (map_of kvs k \<noteq> None)"
| "hasKey (JArr xs named) k = (case index_of k of Some i \<Rightarrow> i < length xs | None \<Rightarrow> map_of named k \<noteq> None)"
| "hasKey v k = False"

fun lodash_has :: "json \<Rightarrow> string list \<Rightarrow> bool" where
  "lodash_has obj [] = False"
| "lodash_has obj [k] = hasKey obj k"
| "lodash_has obj (k # ks) = (hasKey obj k \<and> lodash_has (readKey obj k) ks)"

fun lodash_get :: "json \<Rightarrow> string list \<Rightarrow> json" where
  "lodash_get obj [] = JUndef"
| "lodash_get obj [k] = readKey obj k"
| "lodash_get obj (k # ks) = lodash_get (readKey obj k) ks"

text \<open>
  \<open>assignKey v k x\<close> is the assignment \<^verbatim>\<open>v[k] = x\<close>: on an array an index beyond the
  end leaves holes before it, and a key that is no index becomes a named property.
\<close>

fun assignKey :: "json \<Rightarrow> string \<Rightarrow> json \<Rightarrow> json" where
  "assignKey (JObj kvs) k x = JObj (assign kvs k x)"
| "assignKey (JArr xs named) k x =
     (case index_of k of
        Some i \<Rightarrow>
          JArr (if i < length xs then xs[i := x] else xs @ replicate (i - length xs) JUndef @ [x]) named
      | None \<Rightarrow> JArr xs (assign named k x))"
| "assignKey v k x = v"

text \<open>
  \<^verbatim>\<open>set\<close>: every key of the path but the last keeps the value found there when it is
  an object, and else replaces it by a new array (when the next key is an index) or a new
  object; the last key is assigned the value.
\<close>

fun lodash_set :: "json \<Rightarrow> string list \<Rightarrow> json \<Rightarrow> json" where
  "lodash_set obj [] x = obj"
| "lodash_set obj [k] x = assignKey obj k x"
| "lodash_set obj (k # k' # ks) x =
     (let objValue = readKey obj k;
          newValue = (if isObject objValue then objValue else if isIndex k' then JArr [] [] else JObj [])
      in assignKey obj k (lodash_set newValue (k' # ks) x))"

text \<open>\<^verbatim>\<open>unset\<close> of one key is \<^verbatim>\<open>delete v[k]\<close>: on an array an index leaves a hole.\<close>

fun lodash_unset :: "json \<Rightarrow> string \<Rightarrow> json" where
  "lodash_unset (JObj kvs) k = JObj (filter (\<lambda>kv. fst kv \<noteq> k) kvs)"
| "lodash_unset (JArr xs named) k =
     (case index_of k of
        Some i \<Rightarrow> JArr (if i < length xs then xs[i := JUndef] else xs) named
      | None \<Rightarrow> JArr xs (filter (\<lambda>kv. fst kv \<noteq> k) named))"
| "lodash_unset v k = v"

text \<open>
  \<^verbatim>\<open>createInitialItem\<close>: one step of the \<^verbatim>\<open>reduce\<close> over the include keys, and the
  whole. \<^verbatim>\<open>cloneDeep\<close> of a value is the value.
\<close>

definition includeStep :: "json \<Rightarrow> json \<Rightarrow> string \<Rightarrow> json" where
  "includeStep originalItem acc pathString =
     (let v = lodash_get originalItem (splitPath pathString)
      in if v \<noteq> JUndef then lodash_set acc (splitPath pathString) v else acc)"

definition createInitialItem :: "string list \<Rightarrow> json \<Rightarrow> json" where
  "createInitialItem includeKeys originalItem =
     (if includeKeys \<noteq> [] then foldl (includeStep originalItem) (JObj []) includeKeys
      else originalItem)"

text \<open>
  \<^verbatim>\<open>applyExclusions\<close>: for one path the loop walks to the parent of the target, as long
  as the current value is an object that has the segment, and deletes the last segment
  there when the parent is an object that has it. The code deletes in place; the model
  rebuilds the values on the way back.
\<close>

fun excludeAt :: "json \<Rightarrow> string list \<Rightarrow> json" where
  "excludeAt current [] = current"
| "excludeAt current [lastSegment] =
     (if isObject current \<and> lodash_has current [lastSegment] then lodash_unset current lastSegment
      else current)"
| "excludeAt current (segment # rest) =
     (if isObject current \<and> lodash_has current [segment]
      then assignKey current segment (excludeAt (lodash_get current [segment]) rest)
      else current)"

definition excludeStep :: "json \<Rightarrow> string \<Rightarrow> json" where
  "excludeStep currentProcessedItem pathString = excludeAt currentProcessedItem (splitPath pathString)"

definition applyExclusions :: "string list \<Rightarrow> json \<Rightarrow> json" where
  "applyExclusions excludeKeys currentProcessedItem =
     (if excludeKeys = [] \<or> \<not> isObject currentProcessedItem then currentProcessedItem
      else foldl excludeStep currentProcessedItem excludeKeys)"

text \<open>\<^verbatim>\<open>applySensitization\<close>: one step of the \<^verbatim>\<open>reduce\<close>, and the whole.\<close>

definition sensitizeStep :: "json \<Rightarrow> string \<Rightarrow> json" where
  "sensitizeStep acc pathString =
     (let pathArray = splitPath pathString
      in if lodash_has acc pathArray then lodash_set acc pathArray (JStr SENSITIVE_MARK) else acc)"

definition applySensitization :: "string list \<Rightarrow> json \<Rightarrow> json" where
  "applySensitization sensitiveKeys currentProcessedItem =
     (if sensitiveKeys = [] \<or> \<not> isObject currentProcessedItem then currentProcessedItem
      else foldl sensitizeStep currentProcessedItem sensitiveKeys)"

definition transformItem :: "json \<Rightarrow> string list \<Rightarrow> string list \<Rightarrow> string list \<Rightarrow> json" where
  "transformItem item includeKeys excludeKeys sensitiveKeys =
     (if \<not> isObject item then item
      else applySensitization sensitiveKeys (applyExclusions excludeKeys (createInitialItem includeKeys item)))"

text \<open>Decimal digits of a number, as a template literal prints it.\<close>

function decimal :: "nat \<Rightarrow> string" where
  "decimal n = (if n < 10 then [digit_chars ! n] else decimal (n div 10) @ [digit_chars ! (n mod 10)])"
  by pat_completeness auto
termination
  by (relation "measure id") auto

declare decimal.simps [simp del]

definition decimalInt :: "int \<Rightarrow> string" where
  "decimalInt i = (if i < 0 then CHR ''-'' # decimal (nat (- i)) else decimal (nat i))"

text \<open>\<^verbatim>\<open>s.slice(0, m)\<close>: a negative \<open>m\<close> counts from the end.\<close>

definition slice0 :: "string \<Rightarrow> int \<Rightarrow> string" where
  "slice0 s m = (if m < 0 then take (nat (int (length s) + m)) s else take (nat m) s)"

text \<open>
  \<^verbatim>\<open>truncateData\<close>; \<open>pretty\<close> is the platform's
  \<^verbatim>\<open>JSON.stringify(data, null, 2)\<close>.
\<close>

definition truncateData :: "(json \<Rightarrow> string) \<Rightarrow> json \<Rightarrow> int option \<Rightarrow> json" where
  "truncateData pretty data' maxLength' =
     (case maxLength' of
        None \<Rightarrow> data'
      | Some m \<Rightarrow>
          if m = 0 then data'
          else (let stringified = pretty data' in
                if int (length stringified) \<le> m then data'
                else JObj [(''message'', JStr (''Response was truncated (length: ''
                               @ decimal (length stringified) @ '', max: '' @ decimalInt m @ '')'')),
                           (''truncatedData'', JStr (slice0 stringified m @ ''...''))]))"

text \<open>\<^verbatim>\<open>a || b || []\<close> on optional arrays: an array, also an empty one, is truthy.\<close>

definition firstList :: "'a list option \<Rightarrow> 'a list option \<Rightarrow> 'a list" where
  "firstList a b = (case a of Some l \<Rightarrow> l | None \<Rightarrow> (case b of Some l \<Rightarrow> l | None \<Rightarrow> []))"

definition responseConfigGlobal :: "spec_document \<Rightarrow> response_config" where
  "responseConfigGlobal spec =
     (case x_response_config spec of
        Some c \<Rightarrow> c
      | None \<Rightarrow> \<lparr>maxLength = None, includeResponseKeys = None, excludeResponseKeys = None,
                 sensitiveResponseFields = None\<rparr>)"

text \<open>
  \<^verbatim>\<open>postProcess\<close>. The tool's \<^verbatim>\<open>_rawOperation\<close> is always set by the translator, so
  the branch for a missing operation is left out.
\<close>

definition processData :: "spec_document \<Rightarrow> tool \<Rightarrow> json \<Rightarrow> json" where
  "processData spec extendTool data' =
     (let op = rawOperation extendTool;
          includeKeys = firstList (x_include_response_keys op) (includeResponseKeys (responseConfigGlobal spec));
          excludeKeys = firstList (x_exclude_response_keys op) (excludeResponseKeys (responseConfigGlobal spec));
          sensitiveKeys = firstList (x_sensitive_response_fields op)
                            (sensitiveResponseFields (responseConfigGlobal spec))
      in if includeKeys = [] \<and> excludeKeys = [] \<and> sensitiveKeys = [] then data'
         else (case data' of
                 JArr items named \<Rightarrow>
                   JArr (map (\<lambda>currentItem. transformItem currentItem includeKeys excludeKeys sensitiveKeys) items) []
               | _ \<Rightarrow> transformItem data' includeKeys excludeKeys sensitiveKeys))"

definition postProcess :: "(json \<Rightarrow> string) \<Rightarrow> spec_document \<Rightarrow> tool \<Rightarrow> json \<Rightarrow> json" where
  "postProcess pretty spec extendTool data' =
     truncateData pretty (processData spec extendTool data') (maxLength (responseConfigGlobal spec))"

text \<open>A specification document with nothing configured but its response configuration.\<close>

definition specWithResponseConfig :: "response_config \<Rightarrow> spec_document" where
  "specWithResponseConfig c =
     \<lparr>x_filter_rules = None, x_request_config = None, x_response_config = Some c, servers = [],
      securityScheme_TencentCloudAuth = False, paths = []\<rparr>"

section \<open>Spec Filter\<close>

text \<open>
  The regular expression engine is the platform's: \<open>re pattern subject\<close> is
  \<^verbatim>\<open>new RegExp(pattern).test(subject)\<close>, and \<open>None\<close> when the pattern is not a regular
  expression (the constructor throws). A function of the filter that returns \<open>None\<close>
  has thrown.
\<close>

type_synonym regex = "string \<Rightarrow> string \<Rightarrow> bool option"

definition httpMethods :: "string list" where
  "httpMethods = [''get'', ''post'', ''put'', ''delete'', ''patch'']"

text \<open>
  One pattern of a rule against its subject: \<open>Some True\<close> when the test sets
  \<^verbatim>\<open>matches = false\<close>. An absent or empty pattern is falsy and is not compiled.
\<close>

definition patternFails :: "regex \<Rightarrow> string option \<Rightarrow> string \<Rightarrow> bool option" where
  "patternFails re pattern subject =
     (case pattern of
        None \<Rightarrow> Some False
      | Some pat \<Rightarrow> if pat = [] then Some False else map_option Not (re pat subject))"

definition tagsFail :: "filter_rule \<Rightarrow> operation \<Rightarrow> bool" where
  "tagsFail rule operation =
     (case rule_tags rule of
        None \<Rightarrow> False
      | Some ruleTags \<Rightarrow>
          (case tags operation of
             None \<Rightarrow> False
           | Some opTags \<Rightarrow> \<not> list_ex (\<lambda>tag. tag \<in> set opTags) ruleTags))"

definition ruleMatches :: "regex \<Rightarrow> filter_rule \<Rightarrow> string \<Rightarrow> string \<Rightarrow> operation \<Rightarrow> bool option" where
  "ruleMatches re rule path m operation =
     (case patternFails re (pathPattern rule) path of
        None \<Rightarrow> None
      | Some f1 \<Rightarrow>
          (case patternFails re (methodPattern rule) m of
             None \<Rightarrow> None
           | Some f2 \<Rightarrow>
               (case (case operationId operation of
                        None \<Rightarrow> Some False
                      | Some oid \<Rightarrow>
                          if oid = [] then Some False
                          else patternFails re (operationIdPattern rule) oid) of
                  None \<Rightarrow> None
                | Some f3 \<Rightarrow> Some (\<not> f1 \<and> \<not> f2 \<and> \<not> f3 \<and> \<not> tagsFail rule operation))))"

text \<open>The loop over the rules: the first rule that matches decides, and no rule excludes.\<close>

fun included :: "regex \<Rightarrow> filter_rule list \<Rightarrow> string \<Rightarrow> string \<Rightarrow> operation \<Rightarrow> bool option" where
  "included re [] path m operation = Some False"
| "included re (rule # rules) path m operation =
     (case ruleMatches re rule path m operation of
        None \<Rightarrow> None
      | Some matches \<Rightarrow>
          if matches then Some (exclude rule \<noteq> Some True)
          else included re rules path m operation)"

fun filterPathItem ::
  "regex \<Rightarrow> filter_rule list \<Rightarrow> string \<Rightarrow> (string \<times> operation) list \<Rightarrow> (string \<times> operation) list
     \<Rightarrow> (string \<times> operation) list option" where
  "filterPathItem re rules path [] filteredPathItem = Some filteredPathItem"
| "filterPathItem re rules path ((m, operation) # rest) filteredPathItem =
     (if m \<in> set httpMethods then
        (case included re rules path m operation of
           None \<Rightarrow> None
         | Some inc \<Rightarrow>
             filterPathItem re rules path rest
               (if inc then assign filteredPathItem m operation else filteredPathItem))
      else filterPathItem re rules path rest filteredPathItem)"

fun filterPaths ::
  "regex \<Rightarrow> filter_rule list \<Rightarrow> (string \<times> (string \<times> operation) list) list
     \<Rightarrow> (string \<times> (string \<times> operation) list) list \<Rightarrow> (string \<times> (string \<times> operation) list) list option" where
  "filterPaths re rules [] filteredPaths = Some filteredPaths"
| "filterPaths re rules ((path, pathItem) # rest) filteredPaths =
     (case filterPathItem re rules path pathItem [] of
        None \<Rightarrow> None
      | Some filteredPathItem \<Rightarrow>
          filterPaths re rules rest
            (if filteredPathItem \<noteq> [] then assign filteredPaths path filteredPathItem
             else filteredPaths))"

text \<open>
  \<^verbatim>\<open>filterSpec\<close> gets a reference to the document and returns a reference. The store
  maps references to documents, so that the assignment \<^verbatim>\<open>spec.paths = filteredPaths\<close>
  to the argument's object is a change of the store at the argument's reference. The
  operations are only read and stored again by reference.
\<close>

type_synonym store = "nat \<Rightarrow> spec_document"

definition filterSpec :: "regex \<Rightarrow> store \<Rightarrow> nat \<Rightarrow> (store \<times> nat) option" where
  "filterSpec re st spec =
     (case x_filter_rules (st spec) of
        None \<Rightarrow> Some (st, spec)
      | Some filterRules \<Rightarrow>
          if filterRules = [] then Some (st, spec)
          else (case filterPaths re filterRules (paths (st spec)) [] of
                  None \<Rightarrow> None
                | Some filteredPaths \<Rightarrow>
                    Some (st(spec := (st spec)\<lparr>paths := filteredPaths\<rparr>), spec)))"

text \<open>An engine for examples without patterns: it rejects every pattern.\<close>

definition noRegex :: regex where
  "noRegex pattern subject = None"

text \<open>A document with one GET operation on \<^verbatim>\<open>/a\<close> and the given filter rules.\<close>

definition oneOperationSpec :: "filter_rule list option \<Rightarrow> spec_document" where
  "oneOperationSpec rules =
     \<lparr>x_filter_rules = rules, x_request_config = None, x_response_config = None, servers = [],
      securityScheme_TencentCloudAuth = False, paths = [(''/a'', [(''get'', no_extensions)])]\<rparr>"

definition excludeEverything :: filter_rule where
  "excludeEverything =
     \<lparr>pathPattern = None, methodPattern = None, operationIdPattern = None, rule_tags = None,
      exclude = Some True\<rparr>"

text \<open>
  A store in which every reference holds the document \<open>doc\<close>, and the paths map of the
  argument's document as the store holds it after the call.
\<close>

definition storeOf :: "spec_document \<Rightarrow> store" where
  "storeOf doc r = doc"

definition inputPathsAfter :: "regex \<Rightarrow> store \<Rightarrow> nat \<Rightarrow> (string \<times> (string \<times> operation) list) list option" where
  "inputPathsAfter re st spec = map_option (\<lambda>res. paths (fst res spec)) (filterSpec re st spec)"

section \<open>Translator: parameters\<close>

text \<open>A value of an optional string member is truthy when it is present and not empty.\<close>

definition truthy :: "string option \<Rightarrow> bool" where
  "truthy a = (a \<noteq> None \<and> a \<noteq> Some [])"

definition sensitiveKV :: "operation \<Rightarrow> (string \<times> string) list" where
  "sensitiveKV operation = (case x_sensitive_params operation of None \<Rightarrow> [] | Some kv \<Rightarrow> kv)"














section \<open>The platform\<close>

text \<open>
  A URL as the \<^verbatim>\<open>URL\<close> class holds it: \<open>u_origin\<close> is everything before the path,
  \<open>u_search\<close> the entries of \<^verbatim>\<open>searchParams\<close>. The assignment to \<^verbatim>\<open>pathname\<close> is
  modelled without the re-encoding the class applies.
\<close>

record url =
  u_origin :: string
  u_pathname :: string
  u_search :: "(string \<times> string) list"

text \<open>
  What the code takes from its runtime and its libraries: the URL parser (\<open>None\<close> when
  the constructor throws), URL printing, the path template function \<^verbatim>\<open>p\<close> of
  \<^verbatim>\<open>@mcpc/core\<close>, \<^verbatim>\<open>JSON.stringify\<close> with and without indentation, \<^verbatim>\<open>String\<close> on a
  value that is not a string, SHA-256 (hex digest), HMAC-SHA-256 of a message under a
  secret (raw and hex digest), the clock in seconds, the UTC calendar date (year, month
  from 1, day) of a time, \<^verbatim>\<open>encodeURIComponent\<close>, and the order of \<^verbatim>\<open>localeCompare\<close>.
\<close>

record platform =
  parseURL :: "string \<Rightarrow> url option"
  urlToString :: "url \<Rightarrow> string"
  fillTemplate :: "string \<Rightarrow> (string \<times> json) list \<Rightarrow> string"
  stringify :: "json \<Rightarrow> string"
  stringifyPretty :: "json \<Rightarrow> string"
  toText :: "json \<Rightarrow> string"
  hashHex :: "string \<Rightarrow> string"
  hmacRaw :: "string \<Rightarrow> string \<Rightarrow> string"
  hmacHex :: "string \<Rightarrow> string \<Rightarrow> string"
  nowSeconds :: nat
  utcDate :: "nat \<Rightarrow> nat \<times> nat \<times> nat"
  encodeURIComponent :: "string \<Rightarrow> string"
  localeLeq :: "string \<Rightarrow> string \<Rightarrow> bool"

section \<open>Signature Adapter\<close>

text \<open>A value that may be \<^verbatim>\<open>undefined\<close>, concatenated into a string.\<close>

definition jsString :: "string option \<Rightarrow> string" where
  "jsString a = (case a of None \<Rightarrow> ''undefined'' | Some s \<Rightarrow> s)"

fun joinWith :: "string \<Rightarrow> string list \<Rightarrow> string" where
  "joinWith sep [] = []"
| "joinWith sep [x] = x"
| "joinWith sep (x # y # ys) = x @ sep @ joinWith sep (y # ys)"

text \<open>
  \<^verbatim>\<open>Array.prototype.sort\<close> is stable: an insertion sort, by the order of the code units
  when no comparison is given.
\<close>

fun codeLeq :: "string \<Rightarrow> string \<Rightarrow> bool" where
  "codeLeq [] ys = True"
| "codeLeq (x # xs) [] = False"
| "codeLeq (x # xs) (y # ys) = ((of_char x :: nat) < of_char y \<or> (x = y \<and> codeLeq xs ys))"

fun insertBy :: "('a \<Rightarrow> 'a \<Rightarrow> bool) \<Rightarrow> 'a \<Rightarrow> 'a list \<Rightarrow> 'a list" where
  "insertBy leq x [] = [x]"
| "insertBy leq x (y # ys) = (if leq x y then x # y # ys else y # insertBy leq x ys)"

definition sortBy :: "('a \<Rightarrow> 'a \<Rightarrow> bool) \<Rightarrow> 'a list \<Rightarrow> 'a list" where
  "sortBy leq xs = foldr (insertBy leq) xs []"

definition newline :: string where
  "newline = [CHR 0x0A]"

definition lastTwo :: "string \<Rightarrow> string" where
  "lastTwo s = drop (length s - 2) s"

definition getDate :: "platform \<Rightarrow> nat \<Rightarrow> string" where
  "getDate pf timestamp =
     (case utcDate pf timestamp of
        (year, month, day) \<Rightarrow>
          decimal year @ ''-'' @ lastTwo (''0'' @ decimal month) @ ''-'' @ lastTwo (''0'' @ decimal day))"

text \<open>The result header key of a signed header key: \<^verbatim>\<open>x-tc-action\<close> becomes \<^verbatim>\<open>X-TC-Action\<close>.\<close>

definition capitalize :: "string \<Rightarrow> string" where
  "capitalize part = (case part of [] \<Rightarrow> [] | c # cs \<Rightarrow> upper_char c # cs)"

definition formatHeaderKey :: "string \<Rightarrow> string" where
  "formatHeaderKey key =
     joinWith ''-'' (map (\<lambda>part. if part = ''tc'' then ''TC'' else capitalize part) (splitOn (CHR ''-'') key))"

text \<open>A metadata header that is set from the configuration when it is not present yet.\<close>

definition setIfConfigured :: "(string \<times> string) list \<Rightarrow> string \<Rightarrow> string option \<Rightarrow> (string \<times> string) list" where
  "setIfConfigured headersToSign key configured =
     (if truthy configured \<and> map_of headersToSign key = None
      then assign headersToSign key (jsString configured)
      else headersToSign)"

text \<open>
  \<^verbatim>\<open>generateTencentCloudSignature\<close>. The function reads the secret id and the secret key
  where it concatenates them into the credential and into the first HMAC secret; it has
  no check and no throw. Header values are strings: the time stamp header holds the
  decimal digits of the number the code stores.
\<close>

definition generateTencentCloudSignature ::
  "platform \<Rightarrow> string \<Rightarrow> string \<Rightarrow> (string \<times> string) list \<Rightarrow> (string \<times> string) list \<Rightarrow> string option
     \<Rightarrow> tc_auth \<Rightarrow> (string \<times> string) list" where
  "generateTencentCloudSignature pf m path' query headers body authConfig =
     (let timestamp = nowSeconds pf;
          date = getDate pf timestamp;
          host = map_of headers ''host'';
          service = (if truthy (tc_service authConfig) then jsString (tc_service authConfig)
                     else if truthy host then hd (splitOn (CHR ''.'') (jsString host))
                     else ''service'');
          lowered = foldl (\<lambda>acc kv. assign acc (toLowerCase (fst kv)) (snd kv)) [] headers;
          withAction = setIfConfigured lowered ''x-tc-action'' (map_option toLowerCase (tc_action authConfig));
          withVersion = setIfConfigured withAction ''x-tc-version'' (tc_version authConfig);
          withRegion = setIfConfigured withVersion ''x-tc-region'' (tc_region authConfig);
          withTimestamp = assign withRegion ''x-tc-timestamp'' (decimal timestamp);
          headersToSign = (if truthy (tc_token authConfig)
                           then assign withTimestamp ''x-tc-token'' (jsString (tc_token authConfig))
                           else withTimestamp);
          signedHeaders = sortBy codeLeq
                            (filter (\<lambda>key. key = ''content-type'' \<or> key = ''host'') (map fst headersToSign));
          canonicalHeaders = concat (map (\<lambda>key. key @ '':'' @ js_or (map_of headersToSign key) [] @ newline)
                                       signedHeaders);
          signedHeadersString = joinWith '';'' signedHeaders;
          hashedPayload = hashHex pf (js_or body []);
          canonicalQueryString =
            joinWith ''&''
              (map (\<lambda>kv. encodeURIComponent pf (fst kv) @ ''='' @ encodeURIComponent pf (snd kv))
                 (sortBy (\<lambda>a b. localeLeq pf (fst a) (fst b)) query));
          canonicalRequest =
            joinWith newline
              [toUpperCase m, ''/'', canonicalQueryString, canonicalHeaders, signedHeadersString, hashedPayload];
          credentialScope = date @ ''/'' @ service @ ''/tc3_request'';
          hashedCanonicalRequest = hashHex pf canonicalRequest;
          stringToSign =
            joinWith newline [''TC3-HMAC-SHA256'', decimal timestamp, credentialScope, hashedCanonicalRequest];
          secretDate = hmacRaw pf date (''TC3'' @ jsString (tc_secretKey authConfig));
          secretService = hmacRaw pf service secretDate;
          secretSigning = hmacRaw pf ''tc3_request'' secretService;
          signature = hmacHex pf stringToSign secretSigning;
          authorization =
            ''TC3-HMAC-SHA256 Credential='' @ jsString (tc_secretId authConfig) @ ''/'' @ credentialScope
              @ '', SignedHeaders='' @ signedHeadersString @ '', Signature='' @ signature;
          resultHeaders = foldl (\<lambda>acc kv. assign acc (formatHeaderKey (fst kv)) (snd kv))
                            [(''Authorization'', authorization)] headersToSign
      in filter (\<lambda>kv. fst kv \<noteq> ''X-TC-Service'') resultHeaders)"

section \<open>Invoker: the request\<close>

text \<open>
  What \<^verbatim>\<open>invoke\<close> can throw: an \<^verbatim>\<open>Error\<close> with a message, the \<^verbatim>\<open>TypeError\<close> of the
  URL constructor for the string it was given, and the rejection of
  \<^verbatim>\<open>response.json()\<close> on a body that is not JSON.
\<close>

datatype invoke_error = Failure string | InvalidURL string | InvalidJSON

text \<open>The caller's parameters \<^verbatim>\<open>{ pathParams, inputParams }\<close>, each of which may be missing.\<close>

record invoke_params =
  callerPathParams :: "(string \<times> json) list option"
  callerInputParams :: "(string \<times> json) list option"

definition requestConfigGlobal :: "spec_document \<Rightarrow> request_config" where
  "requestConfigGlobal spec =
     (case x_request_config spec of
        Some c \<Rightarrow> c
      | None \<Rightarrow> \<lparr>baseUrl = None, proxy = None, rc_headers = None, timeout = None, retries = None,
                 auth_TencentCloudAuth = None\<rparr>)"

text \<open>\<^verbatim>\<open>extend(inputParams, sensitiveParams)\<close> assigns every entry of the source.\<close>

definition lodash_extend :: "(string \<times> json) list \<Rightarrow> (string \<times> string) list \<Rightarrow> (string \<times> json) list" where
  "lodash_extend object source = foldl (\<lambda>acc kv. assign acc (fst kv) (JStr (snd kv))) object source"

definition String_of :: "platform \<Rightarrow> json \<Rightarrow> string" where
  "String_of pf v = (case v of JStr s \<Rightarrow> s | _ \<Rightarrow> toText pf v)"

text \<open>
  The loop over \<^verbatim>\<open>x-remap-path-to-header\<close>: each header key shifts one item off
  \<^verbatim>\<open>pathItems\<close> and stores it when it is truthy, that is present and not empty.
\<close>

fun remapPathToHeader :: "string list \<Rightarrow> string list \<Rightarrow> (string \<times> string) list \<Rightarrow> (string \<times> string) list" where
  "remapPathToHeader [] pathItems requestHeaders = requestHeaders"
| "remapPathToHeader (headerKey # keys) [] requestHeaders = remapPathToHeader keys [] requestHeaders"
| "remapPathToHeader (headerKey # keys) (currVal # pathItems) requestHeaders =
     remapPathToHeader keys pathItems
       (if currVal \<noteq> [] then assign requestHeaders headerKey currVal else requestHeaders)"

text \<open>
  Lines 66 to 79 of \<^verbatim>\<open>invoke\<close>: with a remap list (also an empty one: an array is
  truthy) the path goes into headers and the URL is left alone, without one the path
  becomes the URL's path.
\<close>

definition pathStep :: "operation \<Rightarrow> string \<Rightarrow> url \<Rightarrow> (string \<times> string) list \<Rightarrow> url \<times> (string \<times> string) list" where
  "pathStep op path' u requestHeaders =
     (case x_remap_path_to_header op of
        Some pathRemaps \<Rightarrow> (u, remapPathToHeader pathRemaps (drop 1 (splitOn (CHR ''/'') path')) requestHeaders)
      | None \<Rightarrow> (u\<lparr>u_pathname := path'\<rparr>, requestHeaders))"

text \<open>
  The state of \<^verbatim>\<open>invoke\<close> after line 92: the URL, the headers and the body are built,
  authentication and the proxy are still to come.
\<close>

record target =
  g_url :: url
  g_headers :: "(string \<times> string) list"
  g_body :: "string option"
  g_method :: string
  g_path :: string
  g_inputParams :: "(string \<times> json) list"

text \<open>
  The global base URL \<^verbatim>\<open>requestConfigGlobal.baseUrl || spec.servers?.[0]?.url\<close>, the
  configured headers, and the address \<^verbatim>\<open>specificUrl ?? baseUrl\<close> that the URL is made
  from.
\<close>

definition globalBaseUrl :: "spec_document \<Rightarrow> string option" where
  "globalBaseUrl spec =
     (if truthy (baseUrl (requestConfigGlobal spec)) then baseUrl (requestConfigGlobal spec)
      else (case servers spec of [] \<Rightarrow> None | server # _ \<Rightarrow> Some server))"

definition configuredHeaders :: "spec_document \<Rightarrow> (string \<times> string) list" where
  "configuredHeaders spec = (case rc_headers (requestConfigGlobal spec) of None \<Rightarrow> [] | Some h \<Rightarrow> h)"

definition baseAddress :: "spec_document \<Rightarrow> tool \<Rightarrow> string" where
  "baseAddress spec extendTool =
     (case x_custom_base_url (rawOperation extendTool) of
        Some specificUrl \<Rightarrow> specificUrl
      | None \<Rightarrow> js_or (globalBaseUrl spec) [])"

text \<open>
  The method \<^verbatim>\<open>extendTool.method?.toLowerCase() || "get"\<close>, the filled path and the
  input parameters after \<^verbatim>\<open>extend(inputParams, sensitiveParams)\<close>.
\<close>

definition invokeMethod :: "tool \<Rightarrow> string" where
  "invokeMethod extendTool = js_or (map_option toLowerCase (t_method extendTool)) ''get''"

definition filledPath :: "platform \<Rightarrow> tool \<Rightarrow> invoke_params \<Rightarrow> string" where
  "filledPath pf extendTool params =
     fillTemplate pf (t_path extendTool) (case callerPathParams params of None \<Rightarrow> [] | Some x \<Rightarrow> x)"

definition mergedInputParams :: "tool \<Rightarrow> invoke_params \<Rightarrow> (string \<times> json) list" where
  "mergedInputParams extendTool params =
     lodash_extend (case callerInputParams params of None \<Rightarrow> [] | Some x \<Rightarrow> x)
       (sensitiveKV (rawOperation extendTool))"

text \<open>Lines 63 to 92, for the parsed base URL \<open>u0\<close>.\<close>

definition targetOf :: "platform \<Rightarrow> spec_document \<Rightarrow> tool \<Rightarrow> invoke_params \<Rightarrow> url \<Rightarrow> target" where
  "targetOf pf spec extendTool params u0 =
     (let m = invokeMethod extendTool;
          path' = filledPath pf extendTool params;
          inputParams1 = mergedInputParams extendTool params;
          stepped = pathStep (rawOperation extendTool) path' u0 (configuredHeaders spec);
          withBody = (m \<noteq> ''get'' \<and> inputParams1 \<noteq> [])
      in \<lparr>g_url = (if m = ''get'' \<and> inputParams1 \<noteq> []
                   then (fst stepped)\<lparr>u_search := u_search (fst stepped)
                            @ map (\<lambda>kv. (fst kv, String_of pf (snd kv))) inputParams1\<rparr>
                   else fst stepped),
          g_headers = (if withBody then assign (snd stepped) ''content-type'' ''application/json''
                       else snd stepped),
          g_body = (if withBody then Some (stringify pf (JObj inputParams1)) else None),
          g_method = m, g_path = path', g_inputParams = inputParams1\<rparr>)"

definition buildTarget :: "platform \<Rightarrow> spec_document \<Rightarrow> tool \<Rightarrow> invoke_params \<Rightarrow> invoke_error + target" where
  "buildTarget pf spec extendTool params =
     (if (\<not> truthy (x_custom_base_url (rawOperation extendTool)) \<and> \<not> truthy (globalBaseUrl spec))
           \<or> filledPath pf extendTool params = []
      then Inl (Failure ''Invalid tool configuration'')
      else (case parseURL pf (baseAddress spec extendTool) of
              None \<Rightarrow> Inl (InvalidURL (baseAddress spec extendTool))
            | Some u0 \<Rightarrow> Inr (targetOf pf spec extendTool params u0)))"

text \<open>
  Lines 94 to 120: when the scheme is declared and credentials are configured, the
  header set is replaced by the adapter's output. The two assignments to the shared
  \<^verbatim>\<open>authConfig\<close> object reach the adapter; that they also stay in the specification
  document for later calls is not followed here.
\<close>

definition authStep :: "platform \<Rightarrow> spec_document \<Rightarrow> tool \<Rightarrow> target \<Rightarrow> (string \<times> string) list" where
  "authStep pf spec extendTool tg =
     (case auth_TencentCloudAuth (requestConfigGlobal spec) of
        None \<Rightarrow> g_headers tg
      | Some authConfig \<Rightarrow>
          if \<not> securityScheme_TencentCloudAuth spec then g_headers tg
          else (let op = rawOperation extendTool;
                    withAction = (if truthy (operationId op) \<and> \<not> truthy (tc_action authConfig)
                                  then authConfig\<lparr>tc_action := operationId op\<rparr> else authConfig);
                    service = map_of (g_headers tg) ''x-tc-service'';
                    withService = (if truthy service then withAction\<lparr>tc_service := service\<rparr> else withAction)
                in generateTencentCloudSignature pf (g_method tg) (g_path tg) (u_search (g_url tg))
                     (g_headers tg) (g_body tg) withService))"

text \<open>\<^verbatim>\<open>URLSearchParams.set\<close>: the first entry of the name gets the value, the others go.\<close>

definition searchSet :: "(string \<times> string) list \<Rightarrow> string \<Rightarrow> string \<Rightarrow> (string \<times> string) list" where
  "searchSet entries n v =
     (let before = takeWhile (\<lambda>kv. fst kv \<noteq> n) entries;
          after = dropWhile (\<lambda>kv. fst kv \<noteq> n) entries
      in if after = [] then entries @ [(n, v)]
         else before @ (n, v) # filter (\<lambda>kv. fst kv \<noteq> n) (drop 1 after))"

definition proxyStep :: "platform \<Rightarrow> spec_document \<Rightarrow> url \<Rightarrow> invoke_error + url" where
  "proxyStep pf spec u =
     (case proxy (requestConfigGlobal spec) of
        None \<Rightarrow> Inr u
      | Some proxyConfig \<Rightarrow>
          (case parseURL pf (proxy_url proxyConfig) of
             None \<Rightarrow> Inl (InvalidURL (proxy_url proxyConfig))
           | Some newUrl \<Rightarrow>
               Inr (newUrl\<lparr>u_search := searchSet (u_search newUrl) (proxy_param proxyConfig)
                                          (urlToString pf u)\<rparr>)))"

text \<open>The URL and the \<^verbatim>\<open>requestOptions\<close> that \<^verbatim>\<open>fetch\<close> is called with.\<close>

record request =
  r_url :: url
  r_method :: string
  r_headers :: "(string \<times> string) list"
  r_body :: "string option"
  r_timeout :: int

definition buildRequest :: "platform \<Rightarrow> spec_document \<Rightarrow> tool \<Rightarrow> invoke_params \<Rightarrow> invoke_error + request" where
  "buildRequest pf spec extendTool params =
     (case buildTarget pf spec extendTool params of
        Inl e \<Rightarrow> Inl e
      | Inr tg \<Rightarrow>
          (case proxyStep pf spec (g_url tg) of
             Inl e \<Rightarrow> Inl e
           | Inr u \<Rightarrow>
               Inr \<lparr>r_url = u, r_method = toUpperCase (g_method tg),
                    r_headers = authStep pf spec extendTool tg,
                    r_body = (if truthy (g_body tg) then g_body tg else None),
                    r_timeout = (case timeout (requestConfigGlobal spec) of None \<Rightarrow> 30000 | Some t \<Rightarrow> t)\<rparr>))"

section \<open>Invoker: retries and the response\<close>

text \<open>
  The fetch capability: \<open>fetch n req\<close> is what the call number \<open>n\<close> (from 0) with the
  request does, \<open>Inl message\<close> when it throws an error with that message.
\<close>

record response =
  resp_status :: int
  resp_statusText :: string
  resp_headers :: "(string \<times> string) list"
  resp_json :: "json option"
  resp_text :: string

type_synonym fetcher = "nat \<Rightarrow> request \<Rightarrow> string + response"

text \<open>
  The retry loop from \<^verbatim>\<open>attempt\<close> on. It returns the response or the error, the number
  of calls of \<^verbatim>\<open>fetch\<close> made so far and the waits in milliseconds, in order. The number
  of retries is a number of the configuration and may be negative.
\<close>

function retryLoop ::
  "fetcher \<Rightarrow> string \<Rightarrow> request \<Rightarrow> int \<Rightarrow> int \<Rightarrow> int list \<Rightarrow> (invoke_error + response) \<times> nat \<times> int list" where
  "retryLoop fetch nm req retries' attempt waited =
     (if attempt \<le> retries' then
        (case fetch (nat attempt) req of
           Inr resp \<Rightarrow> (Inr resp, nat attempt + 1, waited)
         | Inl message \<Rightarrow>
             if attempt = retries'
             then (Inl (Failure (''Failed to invoke tool '' @ nm @ '': '' @ message)), nat attempt + 1, waited)
             else retryLoop fetch nm req retries' (attempt + 1) (waited @ [2 ^ nat attempt * 1000]))
      else (Inl (Failure (''Failed to invoke tool '' @ nm @ '': No response'')), nat attempt, waited))"
  by pat_completeness auto
termination
  by (relation "measure (\<lambda>(fetch, nm, req, retries', attempt, waited). nat (retries' + 1 - attempt))") auto

declare retryLoop.simps [simp del]

text \<open>\<^verbatim>\<open>haystack.includes(needle)\<close>.\<close>

fun includes_str :: "string \<Rightarrow> string \<Rightarrow> bool" where
  "includes_str [] needle = (needle = [])"
| "includes_str (c # s) needle = (take (length needle) (c # s) = needle \<or> includes_str s needle)"

record invoker_response =
  ir_status :: int
  ir_statusText :: string
  ir_headers :: "(string \<times> string) list"
  ir_data :: json
  ir_raw :: response

definition parseResponse :: "response \<Rightarrow> invoke_error + json" where
  "parseResponse resp =
     (if includes_str (js_or (map_of (resp_headers resp) ''content-type'') []) ''application/json''
      then (case resp_json resp of None \<Rightarrow> Inl InvalidJSON | Some j \<Rightarrow> Inr j)
      else Inr (JStr (resp_text resp)))"

text \<open>
  \<^verbatim>\<open>invoke\<close>, with the number of calls of \<^verbatim>\<open>fetch\<close> and the waits as the second and
  third component of its result.
\<close>

definition configuredRetries :: "spec_document \<Rightarrow> int" where
  "configuredRetries spec = (case retries (requestConfigGlobal spec) of None \<Rightarrow> 0 | Some r \<Rightarrow> r)"

definition invoke ::
  "platform \<Rightarrow> fetcher \<Rightarrow> spec_document \<Rightarrow> tool \<Rightarrow> invoke_params
     \<Rightarrow> (invoke_error + invoker_response) \<times> nat \<times> int list" where
  "invoke pf fetch spec extendTool params =
     (case buildRequest pf spec extendTool params of
        Inl e \<Rightarrow> (Inl e, 0, [])
      | Inr req \<Rightarrow>
          (case retryLoop fetch (t_name extendTool) req (configuredRetries spec) 0 [] of
             (Inl e, n, waited) \<Rightarrow> (Inl e, n, waited)
           | (Inr resp, n, waited) \<Rightarrow>
               (case parseResponse resp of
                  Inl e \<Rightarrow> (Inl e, n, waited)
                | Inr data' \<Rightarrow>
                    (Inr \<lparr>ir_status = resp_status resp, ir_statusText = resp_statusText resp,
                          ir_headers = resp_headers resp,
                          ir_data = postProcess (stringifyPretty pf) spec extendTool data',
                          ir_raw = resp\<rparr>, n, waited))))"

text \<open>The waits before the attempts \<open>a + 1\<close> to \<open>i\<close>, in milliseconds.\<close>

definition backoff :: "nat \<Rightarrow> nat \<Rightarrow> int list" where
  "backoff a i = map (\<lambda>j. 2 ^ j * 1000) [a ..< i]"

section \<open>A platform and inputs for examples\<close>

text \<open>
  A small platform for the examples: an address is taken as an origin with the path
  \<^verbatim>\<open>/\<close>, a URL is printed without escapes, path templates are filled with the string
  values of their placeholders, JSON is printed without white space and without escapes,
  the digests are written out as terms, the clock stands at 0 on 1970-01-01.
\<close>

fun textOf :: "json \<Rightarrow> string" where
  "textOf JUndef = ''undefined''"
| "textOf JNull = ''null''"
| "textOf (JBool b) = (if b then ''true'' else ''false'')"
| "textOf (JNum n) = decimalInt n"
| "textOf (JStr s) = s"
| "textOf (JArr xs named) = joinWith '','' (map (\<lambda>x. if x = JUndef \<or> x = JNull then [] else textOf x) xs)"
| "textOf (JObj kvs) = ''[object Object]''"

fun printJson :: "json \<Rightarrow> string" where
  "printJson JUndef = ''null''"
| "printJson JNull = ''null''"
| "printJson (JBool b) = (if b then ''true'' else ''false'')"
| "printJson (JNum n) = decimalInt n"
| "printJson (JStr s) = [CHR 0x22] @ s @ [CHR 0x22]"
| "printJson (JArr xs named) = ''['' @ joinWith '','' (map printJson xs) @ '']''"
| "printJson (JObj kvs) =
     ''{'' @ joinWith '','' (map (\<lambda>kv. [CHR 0x22] @ fst kv @ [CHR 0x22] @ '':'' @ printJson (snd kv))
                              (filter (\<lambda>kv. snd kv \<noteq> JUndef) kvs)) @ ''}''"

definition printUrl :: "url \<Rightarrow> string" where
  "printUrl u =
     u_origin u @ u_pathname u
       @ (if u_search u = [] then []
          else ''?'' @ joinWith ''&'' (map (\<lambda>kv. fst kv @ ''='' @ snd kv) (u_search u)))"

definition stringValues :: "(string \<times> json) list \<Rightarrow> environment" where
  "stringValues kvs k = (case map_of kvs k of Some (JStr v) \<Rightarrow> Some v | _ \<Rightarrow> None)"

definition examplePlatform :: platform where
  "examplePlatform =
     \<lparr>parseURL = (\<lambda>address. if address = [] then None
                              else Some \<lparr>u_origin = address, u_pathname = ''/'', u_search = []\<rparr>),
      urlToString = printUrl,
      fillTemplate = (\<lambda>template values. processTemplateVariables Map.empty (stringValues values) template),
      stringify = printJson,
      stringifyPretty = printJson,
      toText = textOf,
      hashHex = (\<lambda>message. ''sha256('' @ message @ '')''),
      hmacRaw = (\<lambda>message secret. ''hmac('' @ secret @ '','' @ message @ '')''),
      hmacHex = (\<lambda>message secret. ''hmachex('' @ secret @ '','' @ message @ '')''),
      nowSeconds = 0,
      utcDate = (\<lambda>t. (1970, 1, 1)),
      encodeURIComponent = (\<lambda>x. x),
      localeLeq = codeLeq\<rparr>"

text \<open>
  A specification document with a request configuration only, and the caller's
  parameters.
\<close>

definition specWithRequestConfig :: "request_config \<Rightarrow> spec_document" where
  "specWithRequestConfig c =
     \<lparr>x_filter_rules = None, x_request_config = Some c, x_response_config = None, servers = [],
      securityScheme_TencentCloudAuth = False, paths = []\<rparr>"

definition requestConfigFor :: "string \<Rightarrow> (string \<times> string) list \<Rightarrow> int \<Rightarrow> request_config" where
  "requestConfigFor address headers r =
     \<lparr>baseUrl = Some address, proxy = None, rc_headers = Some headers, timeout = None, retries = Some r,
      auth_TencentCloudAuth = None\<rparr>"

definition callWith :: "(string \<times> json) list \<Rightarrow> (string \<times> json) list \<Rightarrow> invoke_params" where
  "callWith pathValues inputValues =
     \<lparr>callerPathParams = Some pathValues, callerInputParams = Some inputValues\<rparr>"

text \<open>A response with a JSON body, and a fetch that throws twice and then returns it.\<close>

definition okResponse :: response where
  "okResponse =
     \<lparr>resp_status = 200, resp_statusText = ''OK'',
      resp_headers = [(''content-type'', ''application/json'')],
      resp_json = Some (JObj [(''success'', JBool True)]), resp_text = ''{\"success\":true}''\<rparr>"

definition failsTwice :: fetcher where
  "failsTwice n req = (if n < 2 then Inl ''connection refused'' else Inr okResponse)"

definition alwaysFails :: fetcher where
  "alwaysFails n req = Inl ''connection refused''"










text \<open>
  The input of the integration test \<^verbatim>\<open>invoke - with template variables\<close>: the
  configuration, the tool, and the two variables the test sets in the process
  environment.
\<close>

definition templateTestSpec :: spec_document where
  "templateTestSpec =
     (specWithRequestConfig
        \<lparr>baseUrl = Some ''https://api.example.com'', proxy = None,
         rc_headers = Some [(''Authorization'', ''Bearer {API_KEY}''), (''x-user-id'', ''{USER_ID}'')],
         timeout = None, retries = None, auth_TencentCloudAuth = None\<rparr>)
       \<lparr>servers := [''https://api.example.com'']\<rparr>"

definition templateTestTool :: tool where
  "templateTestTool =
     \<lparr>t_name = ''test-tool'', t_method = Some ''get'', t_path = ''/user/{USER_ID}/profile'',
      meta_method = [], meta_path = [],
      pathParams = \<lparr>s_properties = [], s_required = []\<rparr>,
      inputParams = \<lparr>s_properties = [], s_required = []\<rparr>,
      t_required = None, rawOperation = no_extensions\<rparr>"

definition templateTestEnv :: environment where
  "templateTestEnv = [''API_KEY'' \<mapsto> ''test-api-key'', ''USER_ID'' \<mapsto> ''user123'']"

text \<open>
  A specification document with the signing configuration replaced, a signing
  configuration in which every field is missing, and a document that declares the
  scheme and holds a signing configuration.
\<close>

definition withAuth :: "tc_auth option \<Rightarrow> spec_document \<Rightarrow> spec_document" where
  "withAuth a spec =
     spec\<lparr>x_request_config := Some ((requestConfigGlobal spec)\<lparr>auth_TencentCloudAuth := a\<rparr>)\<rparr>"

definition noCredentials :: tc_auth where
  "noCredentials =
     \<lparr>tc_secretId = None, tc_secretKey = None, tc_token = None, tc_service = None, tc_region = None,
      tc_version = None, tc_action = None\<rparr>"

definition signedSpec :: "tc_auth \<Rightarrow> spec_document" where
  "signedSpec a =
     (withAuth (Some a) (specWithRequestConfig (requestConfigFor ''https://cvm.example.com'' [] 0)))
       \<lparr>securityScheme_TencentCloudAuth := True\<rparr>"

section \<open>Properties\<close>

lemma toUpperCase_get: "toUpperCase ''get'' = ''GET''"
  by (simp add: toUpperCase_def upper_char_def lower_letters_def upper_letters_def)

text \<open>
  C5. Tool names after translation are claimed pairwise distinct. With the name format
  \<^verbatim>\<open>{method}\<close> three GET operations on three paths all have the base name \<^verbatim>\<open>get\<close>:
  the first keeps it, and the second and the third both become \<^verbatim>\<open>get [GET]\<close>, so the
  catalog holds two identical names.
\<close>

theorem C5_three_collisions_repeat_a_name:
  "map t_name (ensureUniqueToolNames
      [basicTool ''get'' ''get'' ''/a'' no_extensions,
       basicTool ''get'' ''get'' ''/b'' no_extensions,
       basicTool ''get'' ''get'' ''/c'' no_extensions])
     = [''get'', ''get [GET]'', ''get [GET]'']"
  by (simp add: ensureUniqueToolNames_def basicTool_def renamed_def toUpperCase_get)

subsection \<open>Template substitution\<close>





lemmas template_defs =
  templateValue_def memberOf_def inheritedMember_def inheritedFunctions_def js_or_def




lemmas char_classes =
  ident_char_def ident_start_def is_identifier_def lower_letters_def upper_letters_def digit_chars_def




subsection \<open>Resolution of objects and of headers\<close>






lemmas resolver_defs =
  processHeaders_def processStringValue_def isScript_def trim_def js_space_def executeScript_def
  withAliases_def headerKeyToEnvVar_def dashesToUnderscores_def toLowerCase_def lower_char_def
  templateValue_def memberOf_def inheritedMember_def inheritedFunctions_def js_or_def
  headerEnv_def resolveEntry_def




subsection \<open>Response post-processing\<close>

lemmas path_defs = splitPath_def index_of_def isIndex_def digit_value_def digit_chars_def

text \<open>Assignment to an association list, and the numeral of an array index.\<close>

lemma map_of_assign: "map_of (assign kvs k v) k' = (if k' = k then Some v else map_of kvs k')"
  by (induction kvs) auto

lemma assign_same: "map_of kvs k = Some v \<Longrightarrow> assign kvs k v = kvs"
  by (induction kvs) (auto split: if_splits)

lemma digit_roundtrip:
  "c \<in> set digit_chars \<Longrightarrow> digit_chars ! digit_value c = c \<and> digit_value c < 10"
  by (auto simp: digit_chars_def digit_value_def upt_conv_Cons)

lemma parse_grows: "a \<le> foldl (\<lambda>n c. 10 * n + digit_value c) a ks"
proof (induction ks arbitrary: a)
  case Nil
  then show ?case by simp
next
  case (Cons c ks)
  have "a \<le> 10 * a + digit_value c" by simp
  also have "\<dots> \<le> foldl (\<lambda>n c. 10 * n + digit_value c) (10 * a + digit_value c) ks" by (rule Cons.IH)
  finally show ?case by simp
qed

lemma parse_positive:
  assumes "ks \<noteq> []" "c \<in> set digit_chars" "hd ks = c" "c \<noteq> CHR ''0''"
  shows "0 < foldl (\<lambda>n c. 10 * n + digit_value c) 0 ks"
proof -
  obtain rest where ks: "ks = c # rest" using assms(1,3) by (cases ks) auto
  have "0 < digit_value c"
    using assms(2,4) by (auto simp: digit_chars_def digit_value_def upt_conv_Cons)
  then have "0 < 10 * 0 + digit_value c" by simp
  also have "\<dots> \<le> foldl (\<lambda>n c. 10 * n + digit_value c) (10 * 0 + digit_value c) rest" by (rule parse_grows)
  finally show ?thesis by (simp add: ks)
qed

lemma decimal_of_index:
  "isIndex k \<Longrightarrow> decimal (foldl (\<lambda>n c. 10 * n + digit_value c) 0 k) = k"
proof (induction k rule: rev_induct)
  case Nil
  then show ?case by (simp add: isIndex_def)
next
  case (snoc c ks)
  have digits: "list_all (\<lambda>c. c \<in> set digit_chars) (ks @ [c])" using snoc.prems by (simp add: isIndex_def)
  then have c: "c \<in> set digit_chars" by simp
  let ?d = "digit_value c" and ?p = "foldl (\<lambda>n c. 10 * n + digit_value c) 0 ks"
  have parsed: "foldl (\<lambda>n c. 10 * n + digit_value c) 0 (ks @ [c]) = 10 * ?p + ?d" by simp
  show ?case
  proof (cases "ks = []")
    case True
    then show ?thesis using digit_roundtrip [OF c] by (simp add: decimal.simps [of "digit_value c"])
  next
    case False
    then have hd: "hd (ks @ [c]) = hd ks" by simp
    have "ks @ [c] \<noteq> ''0''" using False by (cases ks) auto
    then have nz: "hd ks \<noteq> CHR ''0''" using snoc.prems hd False by (auto simp: isIndex_def)
    have dks: "list_all (\<lambda>c. c \<in> set digit_chars) ks" using digits by simp
    then have "isIndex ks" using False nz by (simp add: isIndex_def)
    then have IH: "decimal ?p = ks" by (rule snoc.IH)
    have "hd ks \<in> set digit_chars" using dks False by (cases ks) auto
    then have pos: "0 < ?p" using False nz by (intro parse_positive [of ks "hd ks"]) auto
    have d: "?d < 10" and digit: "digit_chars ! ?d = c" using digit_roundtrip [OF c] by auto
    have "decimal (10 * ?p + ?d) = decimal ((10 * ?p + ?d) div 10) @ [digit_chars ! ((10 * ?p + ?d) mod 10)]"
      using pos by (subst decimal.simps) simp
    also have "\<dots> = decimal ?p @ [digit_chars ! ?d]" using d by simp
    finally show ?thesis by (simp add: parsed IH digit)
  qed
qed

lemma index_of_inj: "index_of k = Some i \<Longrightarrow> index_of k' = Some i \<Longrightarrow> k = k'"
  by (metis decimal_of_index index_of_def option.distinct(1) option.inject)

lemma readKey_nonobject: "\<not> isObject c \<Longrightarrow> readKey c k = JUndef"
  by (cases c) auto

lemma hasKey_isObject: "hasKey c k \<Longrightarrow> isObject c"
  by (cases c) auto

lemma readKey_absent: "\<not> hasKey obj k \<Longrightarrow> readKey obj k = JUndef"
  by (cases obj) (auto split: option.splits)

lemma isObject_assignKey: "isObject (assignKey c k x) = isObject c"
  by (cases c) (auto split: option.splits)

lemma readKey_assignKey_same: "isObject c \<Longrightarrow> readKey (assignKey c k x) k = x"
  by (cases c) (auto simp: map_of_assign nth_append split: option.splits)

lemma hasKey_assignKey_same: "isObject c \<Longrightarrow> hasKey (assignKey c k x) k"
  by (cases c) (auto simp: map_of_assign split: option.splits)

lemma readKey_assignKey_other:
  assumes "k' \<noteq> k"
  shows "readKey (assignKey c k x) k' = readKey c k'"
proof (cases c)
  case (JObj kvs)
  then show ?thesis using assms by (simp add: map_of_assign)
next
  case (JArr xs named)
  show ?thesis
  proof (cases "index_of k")
    case None
    then show ?thesis using assms by (simp add: JArr map_of_assign split: option.splits)
  next
    case (Some i)
    show ?thesis
    proof (cases "index_of k'")
      case None
      then show ?thesis using Some by (simp add: JArr)
    next
      case j: (Some j)
      have ne: "j \<noteq> i" using index_of_inj [of k' j k] Some j assms by auto
      show ?thesis
        using ne by (auto simp: JArr Some j nth_append nth_Cons')
    qed
  qed
qed simp_all

lemma hasKey_assignKey_other:
  assumes "hasKey c k" "k' \<noteq> k"
  shows "hasKey (assignKey c k x) k' = hasKey c k'"
  using assms by (cases c) (auto simp: map_of_assign split: option.splits)

lemma assignKey_same: "hasKey obj k \<Longrightarrow> assignKey obj k (readKey obj k) = obj"
  by (cases obj) (auto simp: assign_same split: option.splits)

lemma isObject_unset: "isObject (lodash_unset c k) = isObject c"
  by (cases c) (auto split: option.splits)

lemma map_of_removed: "map_of (filter (\<lambda>kv. fst kv \<noteq> k) kvs) k' = (if k' = k then None else map_of kvs k')"
  by (induction kvs) auto

lemma readKey_unset_same: "readKey (lodash_unset c k) k = JUndef"
  by (cases c) (auto simp: map_of_removed split: option.splits)

lemma readKey_unset_other:
  assumes "k' \<noteq> k"
  shows "readKey (lodash_unset c k) k' = readKey c k'"
proof (cases c)
  case (JObj kvs)
  then show ?thesis using assms by (simp add: map_of_removed)
next
  case (JArr xs named)
  show ?thesis
  proof (cases "index_of k")
    case None
    then show ?thesis using assms by (simp add: JArr map_of_removed split: option.splits)
  next
    case (Some i)
    show ?thesis
    proof (cases "index_of k'")
      case None
      then show ?thesis using Some by (simp add: JArr)
    next
      case j: (Some j)
      have ne: "j \<noteq> i" using index_of_inj [of k' j k] Some j assms by auto
      show ?thesis using ne by (auto simp: JArr Some j)
    qed
  qed
qed simp_all

text \<open>Reading, writing and testing a path.\<close>

lemma get_Cons:
  "lodash_get c (k # ks) = (if ks = [] then readKey c k else lodash_get (readKey c k) ks)"
  by (cases ks) auto

lemma has_Cons:
  "lodash_has c (k # ks) = (hasKey c k \<and> (ks = [] \<or> lodash_has (readKey c k) ks))"
  by (cases ks) auto

lemma set_Cons:
  "lodash_set c (k # ks) x =
     (if ks = [] then assignKey c k x
      else assignKey c k
             (lodash_set (if isObject (readKey c k) then readKey c k
                          else if isIndex (hd ks) then JArr [] [] else JObj []) ks x))"
  by (cases ks) (auto simp: Let_def)

lemma get_nonobject: "\<not> isObject c \<Longrightarrow> lodash_get c ks = JUndef"
proof (induction ks arbitrary: c)
  case Nil
  then show ?case by simp
next
  case (Cons k ks)
  have "readKey c k = JUndef" using Cons.prems by (rule readKey_nonobject)
  moreover have "lodash_get JUndef ks = JUndef" by (rule Cons.IH) simp
  ultimately show ?case by (simp add: get_Cons)
qed

lemma get_undefined: "lodash_get JUndef ks = JUndef"
  by (rule get_nonobject) simp

lemma get_fresh: "lodash_get (JObj []) ks = JUndef" "lodash_get (JArr [] []) ks = JUndef"
  by (cases ks; simp add: get_Cons get_nonobject split: option.splits)+

lemma get_append:
  "ks \<noteq> [] \<Longrightarrow> rest \<noteq> [] \<Longrightarrow> lodash_get c (ks @ rest) = lodash_get (lodash_get c ks) rest"
proof (induction ks arbitrary: c)
  case Nil
  then show ?case by simp
next
  case (Cons k ks)
  then show ?case by (cases "ks = []") (simp_all add: get_Cons)
qed

lemma get_defined_above:
  "lodash_get c (ks @ rest) \<noteq> JUndef \<Longrightarrow> ks \<noteq> [] \<Longrightarrow> lodash_get c ks \<noteq> JUndef"
  by (cases "rest = []") (auto simp: get_append get_nonobject)

lemma isObject_set: "isObject (lodash_set c ks x) = isObject c"
  by (cases ks) (simp_all add: set_Cons isObject_assignKey)

lemma get_set_same: "isObject c \<Longrightarrow> ks \<noteq> [] \<Longrightarrow> lodash_get (lodash_set c ks v) ks = v"
proof (induction ks arbitrary: c)
  case Nil
  then show ?case by simp
next
  case (Cons k ks)
  show ?case
  proof (cases "ks = []")
    case True
    then show ?thesis using Cons.prems by (simp add: readKey_assignKey_same)
  next
    case False
    let ?nv = "if isObject (readKey c k) then readKey c k else if isIndex (hd ks) then JArr [] [] else JObj []"
    have "isObject ?nv" by simp
    then have "lodash_get (lodash_set ?nv ks v) ks = v" using False by (intro Cons.IH)
    then show ?thesis using False Cons.prems(1) by (simp add: set_Cons get_Cons readKey_assignKey_same)
  qed
qed

lemma get_set_under:
  "isObject c \<Longrightarrow> ks \<noteq> [] \<Longrightarrow> rest \<noteq> [] \<Longrightarrow>
   lodash_get (lodash_set c ks v) (ks @ rest) = lodash_get v rest"
  by (simp add: get_append get_set_same)

lemma get_set_unrelated:
  "\<not> prefix ks qs \<Longrightarrow> \<not> prefix qs ks \<Longrightarrow> lodash_get (lodash_set c ks v) qs = lodash_get c qs"
proof (induction ks arbitrary: c qs)
  case Nil
  then show ?case by simp
next
  case (Cons k ks)
  obtain k' qs' where qs: "qs = k' # qs'" using Cons.prems(2) by (cases qs) auto
  show ?case
  proof (cases "k' = k")
    case False
    then have "readKey (lodash_set c (k # ks) v) k' = readKey c k'"
      by (simp add: set_Cons readKey_assignKey_other)
    then show ?thesis by (simp add: qs get_Cons)
  next
    case True
    have ne: "ks \<noteq> []" "qs' \<noteq> []" using Cons.prems True by (auto simp: qs)
    have un: "\<not> prefix ks qs'" "\<not> prefix qs' ks" using Cons.prems True by (auto simp: qs)
    show ?thesis
    proof (cases "isObject c")
      case False
      then have "lodash_set c (k # ks) v = c" by (cases c) (simp_all add: set_Cons)
      then show ?thesis by simp
    next
      case obj: True
      let ?nv = "if isObject (readKey c k) then readKey c k else if isIndex (hd ks) then JArr [] [] else JObj []"
      have "lodash_get (lodash_set ?nv ks v) qs' = lodash_get ?nv qs'" using un by (rule Cons.IH)
      moreover have "lodash_get ?nv qs' = lodash_get (readKey c k) qs'"
        by (simp add: get_fresh get_nonobject)
      ultimately show ?thesis
        using ne obj by (simp add: qs True set_Cons get_Cons readKey_assignKey_same)
    qed
  qed
qed

lemma get_set_above:
  "isObject c \<Longrightarrow> p \<noteq> [] \<Longrightarrow> rest \<noteq> [] \<Longrightarrow> isObject (lodash_get c p) \<Longrightarrow>
   lodash_get (lodash_set c (p @ rest) v) p = lodash_set (lodash_get c p) rest v"
proof (induction p arbitrary: c)
  case Nil
  then show ?case by simp
next
  case (Cons k p)
  show ?case
  proof (cases "p = []")
    case True
    then show ?thesis using Cons.prems by (simp add: set_Cons get_Cons readKey_assignKey_same)
  next
    case False
    have sub: "isObject (lodash_get (readKey c k) p)" using Cons.prems(4) False by (simp add: get_Cons)
    then have obj: "isObject (readKey c k)"
      using get_nonobject [of "readKey c k" p] by (cases "isObject (readKey c k)") auto
    have "lodash_get (lodash_set (readKey c k) (p @ rest) v) p = lodash_set (lodash_get (readKey c k) p) rest v"
      using obj False Cons.prems(3) sub by (intro Cons.IH)
    then show ?thesis
      using False obj Cons.prems(1) by (simp add: set_Cons get_Cons readKey_assignKey_same)
  qed
qed

lemma readKey_present: "readKey c k \<noteq> JUndef \<Longrightarrow> hasKey c k"
  using readKey_absent by blast

lemma set_same_value: "lodash_get c ks \<noteq> JUndef \<Longrightarrow> lodash_set c ks (lodash_get c ks) = c"
proof (induction ks arbitrary: c)
  case Nil
  then show ?case by simp
next
  case (Cons k ks)
  show ?case
  proof (cases "ks = []")
    case True
    then show ?thesis using Cons.prems by (simp add: assignKey_same readKey_present)
  next
    case False
    have sub: "lodash_get (readKey c k) ks \<noteq> JUndef" using Cons.prems False by (simp add: get_Cons)
    then have obj: "isObject (readKey c k)"
      using get_nonobject [of "readKey c k" ks] by (cases "isObject (readKey c k)") auto
    then have has: "hasKey c k" by (intro readKey_present) auto
    have "lodash_set (readKey c k) ks (lodash_get (readKey c k) ks) = readKey c k"
      using sub by (rule Cons.IH)
    then show ?thesis using False obj has by (simp add: set_Cons get_Cons assignKey_same)
  qed
qed

lemma has_isObject: "lodash_has c ks \<Longrightarrow> isObject c"
  by (cases ks) (auto simp: has_Cons hasKey_isObject)

lemma has_append:
  "ks \<noteq> [] \<Longrightarrow> rest \<noteq> [] \<Longrightarrow>
   lodash_has c (ks @ rest) = (lodash_has c ks \<and> lodash_has (lodash_get c ks) rest)"
proof (induction ks arbitrary: c)
  case Nil
  then show ?case by simp
next
  case (Cons k ks)
  then show ?case by (cases "ks = []") (auto simp: has_Cons get_Cons)
qed

lemma has_set_same: "lodash_has c q \<Longrightarrow> lodash_has (lodash_set c q v) q"
proof (induction q arbitrary: c)
  case Nil
  then show ?case by simp
next
  case (Cons k q)
  have obj: "isObject c" using Cons.prems by (rule has_isObject)
  show ?case
  proof (cases "q = []")
    case True
    then show ?thesis using obj by (simp add: hasKey_assignKey_same)
  next
    case False
    have sub: "lodash_has (readKey c k) q" using Cons.prems False by (simp add: has_Cons)
    then have o2: "isObject (readKey c k)" by (rule has_isObject)
    have "lodash_has (lodash_set (readKey c k) q v) q" using sub by (rule Cons.IH)
    then show ?thesis
      using False obj o2 by (simp add: set_Cons has_Cons hasKey_assignKey_same readKey_assignKey_same)
  qed
qed

lemma has_set_above:
  "lodash_has c (qs @ rest) \<Longrightarrow> qs \<noteq> [] \<Longrightarrow> lodash_has (lodash_set c (qs @ rest) v) qs"
proof (cases "rest = []")
  case True
  assume "lodash_has c (qs @ rest)"
  then show ?thesis using True has_set_same [of c qs v] by simp
next
  case False
  assume h: "lodash_has c (qs @ rest)" and ne: "qs \<noteq> []"
  then have "lodash_has (lodash_set c (qs @ rest) v) (qs @ rest)" by (intro has_set_same)
  then show ?thesis using ne False by (simp add: has_append)
qed

lemma has_set_unrelated:
  "lodash_has c q \<Longrightarrow> \<not> prefix q qs \<Longrightarrow> \<not> prefix qs q \<Longrightarrow>
   lodash_has (lodash_set c q v) qs = lodash_has c qs"
proof (induction q arbitrary: c qs)
  case Nil
  then show ?case by simp
next
  case (Cons k q)
  obtain k' qs' where qs: "qs = k' # qs'" using Cons.prems(3) by (cases qs) auto
  have hk: "hasKey c k" using Cons.prems(1) by (simp add: has_Cons)
  show ?case
  proof (cases "k' = k")
    case False
    then have "readKey (lodash_set c (k # q) v) k' = readKey c k'"
      and "hasKey (lodash_set c (k # q) v) k' = hasKey c k'"
      using hk by (simp_all add: set_Cons readKey_assignKey_other hasKey_assignKey_other)
    then show ?thesis by (simp add: qs has_Cons)
  next
    case True
    have ne: "q \<noteq> []" "qs' \<noteq> []" using Cons.prems True by (auto simp: qs)
    have un: "\<not> prefix q qs'" "\<not> prefix qs' q" using Cons.prems True by (auto simp: qs)
    have sub: "lodash_has (readKey c k) q" using Cons.prems(1) ne by (simp add: has_Cons)
    then have o2: "isObject (readKey c k)" by (rule has_isObject)
    have obj: "isObject c" using hk by (rule hasKey_isObject)
    have "lodash_has (lodash_set (readKey c k) q v) qs' = lodash_has (readKey c k) qs'"
      using sub un by (rule Cons.IH)
    then show ?thesis
      using ne obj o2 hk
      by (simp add: qs True set_Cons has_Cons hasKey_assignKey_same readKey_assignKey_same)
  qed
qed

lemma has_through_string:
  "lodash_get c r = JStr s \<Longrightarrow> r \<noteq> [] \<Longrightarrow> rest \<noteq> [] \<Longrightarrow> \<not> lodash_has c (r @ rest)"
  using has_isObject [of "JStr s" rest] by (auto simp: has_append)

lemma get_absent: "\<not> lodash_has obj ks \<Longrightarrow> lodash_get obj ks = JUndef"
proof (induction obj ks rule: lodash_has.induct)
  case (1 obj)
  then show ?case by simp
next
  case (2 obj k)
  then show ?case by (simp add: readKey_absent)
next
  case (3 obj k v va)
  show ?case
  proof (cases "hasKey obj k")
    case True
    then show ?thesis using 3 by simp
  next
    case False
    then show ?thesis by (simp add: readKey_absent get_undefined)
  qed
qed

text \<open>
  The inclusion stage: what it keeps of the item, and that it keeps nothing else.
\<close>

lemma splitOn_nonempty: "splitOn sep s \<noteq> []"
  by (induction s) (auto split: list.splits)

lemma splitPath_nonempty: "splitPath p \<noteq> []"
  by (simp add: splitPath_def splitOn_nonempty)

lemma path_relation:
  obtains (under) rest where "ts = qs @ rest"
  | (above) rest where "qs = ts @ rest" "rest \<noteq> []"
  | (unrelated) "\<not> prefix qs ts" "\<not> prefix ts qs"
proof (cases "prefix qs ts")
  case True
  then show ?thesis using under by (auto simp: prefix_def)
next
  case False
  show ?thesis
  proof (cases "prefix ts qs")
    case True
    then obtain rest where r: "qs = ts @ rest" by (auto simp: prefix_def)
    then have "rest \<noteq> []" using False by auto
    then show ?thesis using above r by blast
  next
    case f2: False
    then show ?thesis using unrelated False by blast
  qed
qed

lemma include_defined:
  assumes inv: "\<And>ts. lodash_get acc ts \<noteq> JUndef \<Longrightarrow> lodash_get item ts \<noteq> JUndef"
    and obj: "isObject acc" and ne: "qs \<noteq> []" and v: "lodash_get item qs \<noteq> JUndef"
    and now: "lodash_get (lodash_set acc qs (lodash_get item qs)) ts \<noteq> JUndef"
  shows "lodash_get item ts \<noteq> JUndef"
proof (cases rule: path_relation [of ts qs])
  case (under rest)
  show ?thesis
  proof (cases "rest = []")
    case True
    then show ?thesis using under v by simp
  next
    case False
    then have "lodash_get (lodash_get item qs) rest \<noteq> JUndef"
      using now obj ne by (simp add: under get_set_under)
    then show ?thesis using False ne by (simp add: under get_append)
  qed
next
  case (above rest)
  have "ts \<noteq> []" using now by auto
  then show ?thesis using v above get_defined_above [of item ts rest] by simp
next
  case unrelated
  then show ?thesis using now inv by (simp add: get_set_unrelated)
qed

lemma include_kept:
  assumes obj: "isObject acc" and ne: "qs \<noteq> []" "ps \<noteq> []" and v: "lodash_get item qs \<noteq> JUndef"
    and kept: "lodash_get acc ps = lodash_get item ps"
  shows "lodash_get (lodash_set acc qs (lodash_get item qs)) ps = lodash_get item ps"
proof (cases rule: path_relation [of ps qs])
  case (under rest)
  show ?thesis
  proof (cases "rest = []")
    case True
    then show ?thesis using under obj ne by (simp add: get_set_same)
  next
    case False
    then show ?thesis using obj ne by (simp add: under get_set_same get_append)
  qed
next
  case (above rest)
  have sub: "lodash_get (lodash_get item ps) rest \<noteq> JUndef"
    using v above ne by (simp add: get_append)
  then have o2: "isObject (lodash_get item ps)"
    using get_nonobject [of "lodash_get item ps" rest] by (cases "isObject (lodash_get item ps)") auto
  have "lodash_get (lodash_set acc (ps @ rest) (lodash_get item qs)) ps
          = lodash_set (lodash_get acc ps) rest (lodash_get item qs)"
    using obj ne above o2 kept by (intro get_set_above) auto
  also have "\<dots> = lodash_set (lodash_get item ps) rest (lodash_get (lodash_get item ps) rest)"
    using above ne by (simp add: kept get_append)
  also have "\<dots> = lodash_get item ps" using sub by (rule set_same_value)
  finally show ?thesis by (simp add: above)
next
  case unrelated
  then show ?thesis using kept by (simp add: get_set_unrelated)
qed

lemma include_fold:
  assumes "isObject acc"
    and "\<And>ts. lodash_get acc ts \<noteq> JUndef \<Longrightarrow> lodash_get item ts \<noteq> JUndef"
    and "\<And>p. p \<in> P \<Longrightarrow> lodash_get acc (splitPath p) = lodash_get item (splitPath p)"
  shows "isObject (foldl (includeStep item) acc keys)
     \<and> (\<forall>p \<in> P \<union> set keys.
           lodash_get (foldl (includeStep item) acc keys) (splitPath p) = lodash_get item (splitPath p))"
  using assms
proof (induction keys arbitrary: acc P)
  case Nil
  then show ?case by simp
next
  case (Cons q keys)
  let ?qs = "splitPath q"
  let ?acc = "includeStep item acc q"
  have qs: "?qs \<noteq> []" by (rule splitPath_nonempty)
  have obj: "isObject ?acc" using Cons.prems(1) by (simp add: includeStep_def Let_def isObject_set)
  have defined: "lodash_get item ts \<noteq> JUndef" if "lodash_get ?acc ts \<noteq> JUndef" for ts
  proof (cases "lodash_get item ?qs = JUndef")
    case True
    then show ?thesis using that Cons.prems(2) by (simp add: includeStep_def)
  next
    case False
    then show ?thesis
      using that include_defined [of acc item ?qs ts] Cons.prems(1,2) qs
      by (simp add: includeStep_def Let_def)
  qed
  have kept: "lodash_get ?acc (splitPath p) = lodash_get item (splitPath p)" if "p \<in> insert q P" for p
  proof (cases "lodash_get item ?qs = JUndef")
    case True
    then have same: "?acc = acc" by (simp add: includeStep_def)
    show ?thesis
    proof (cases "p \<in> P")
      case True
      then show ?thesis using Cons.prems(3) same by simp
    next
      case False
      then have "p = q" using that by simp
      moreover have "lodash_get acc ?qs = JUndef" using Cons.prems(2) [of ?qs] True by auto
      ultimately show ?thesis using True same by simp
    qed
  next
    case False
    then have acc: "?acc = lodash_set acc ?qs (lodash_get item ?qs)" by (simp add: includeStep_def Let_def)
    show ?thesis
    proof (cases "p \<in> P")
      case True
      then show ?thesis
        unfolding acc
        using Cons.prems(1,3) qs False by (intro include_kept) (auto simp: splitPath_nonempty)
    next
      case f: False
      then have "p = q" using that by simp
      then show ?thesis unfolding acc using Cons.prems(1) qs by (simp add: get_set_same)
    qed
  qed
  have "isObject (foldl (includeStep item) ?acc keys)
     \<and> (\<forall>p \<in> insert q P \<union> set keys.
           lodash_get (foldl (includeStep item) ?acc keys) (splitPath p) = lodash_get item (splitPath p))"
    using obj defined kept by (intro Cons.IH) auto
  then show ?case by simp
qed

lemma include_only_fold:
  assumes "\<And>ts. lodash_get acc ts \<noteq> JUndef \<Longrightarrow>
             \<exists>p \<in> P. lodash_get item (splitPath p) \<noteq> JUndef
                      \<and> (prefix ts (splitPath p) \<or> prefix (splitPath p) ts)"
    and "lodash_get (foldl (includeStep item) acc keys) ts \<noteq> JUndef"
  shows "\<exists>p \<in> P \<union> set keys. lodash_get item (splitPath p) \<noteq> JUndef
                      \<and> (prefix ts (splitPath p) \<or> prefix (splitPath p) ts)"
  using assms
proof (induction keys arbitrary: acc P)
  case Nil
  then show ?case by simp
next
  case (Cons q keys)
  let ?qs = "splitPath q"
  let ?acc = "includeStep item acc q"
  have step: "\<exists>p \<in> insert q P. lodash_get item (splitPath p) \<noteq> JUndef
                      \<and> (prefix us (splitPath p) \<or> prefix (splitPath p) us)"
    if "lodash_get ?acc us \<noteq> JUndef" for us
  proof (cases "lodash_get item ?qs = JUndef")
    case True
    then show ?thesis using that Cons.prems(1) [of us] by (auto simp: includeStep_def)
  next
    case False
    then have acc: "?acc = lodash_set acc ?qs (lodash_get item ?qs)" by (simp add: includeStep_def Let_def)
    show ?thesis
    proof (cases "prefix us ?qs \<or> prefix ?qs us")
      case True
      then show ?thesis using False by blast
    next
      case f: False
      then have "lodash_get acc us \<noteq> JUndef" using that by (simp add: acc get_set_unrelated)
      then show ?thesis using Cons.prems(1) [of us] by blast
    qed
  qed
  have "\<exists>p \<in> insert q P \<union> set keys. lodash_get item (splitPath p) \<noteq> JUndef
                      \<and> (prefix ts (splitPath p) \<or> prefix (splitPath p) ts)"
    using step Cons.prems(2) by (intro Cons.IH) auto
  then show ?case by simp
qed

lemma include_result:
  assumes "includeKeys \<noteq> []"
  shows "isObject (createInitialItem includeKeys item)"
    and "p \<in> set includeKeys \<Longrightarrow>
           lodash_get (createInitialItem includeKeys item) (splitPath p) = lodash_get item (splitPath p)"
    and "lodash_get (createInitialItem includeKeys item) ts \<noteq> JUndef \<Longrightarrow>
           \<exists>p \<in> set includeKeys. lodash_get item (splitPath p) \<noteq> JUndef
                      \<and> (prefix ts (splitPath p) \<or> prefix (splitPath p) ts)"
proof -
  have fold: "isObject (foldl (includeStep item) (JObj []) includeKeys)
     \<and> (\<forall>p \<in> {} \<union> set includeKeys.
           lodash_get (foldl (includeStep item) (JObj []) includeKeys) (splitPath p)
             = lodash_get item (splitPath p))"
    by (rule include_fold) (simp_all add: get_fresh)
  show "isObject (createInitialItem includeKeys item)"
    using fold assms by (simp add: createInitialItem_def)
  show "lodash_get (createInitialItem includeKeys item) (splitPath p) = lodash_get item (splitPath p)"
    if "p \<in> set includeKeys"
    using fold assms that by (simp add: createInitialItem_def)
  show "\<exists>p \<in> set includeKeys. lodash_get item (splitPath p) \<noteq> JUndef
                      \<and> (prefix ts (splitPath p) \<or> prefix (splitPath p) ts)"
    if "lodash_get (createInitialItem includeKeys item) ts \<noteq> JUndef"
    using include_only_fold [of "JObj []" "{}" item includeKeys ts] that assms
    by (simp add: createInitialItem_def get_fresh)
qed

text \<open>The exclusion stage and the sensitization stage.\<close>

lemma excludeAt_Cons:
  "excludeAt c (k # ks) =
     (if isObject c \<and> hasKey c k
      then (if ks = [] then lodash_unset c k else assignKey c k (excludeAt (readKey c k) ks))
      else c)"
  by (cases ks) auto

lemma excludeAt_skip: "\<not> (isObject c \<and> hasKey c k) \<Longrightarrow> excludeAt c (k # ks) = c"
  by (auto simp: excludeAt_Cons)

lemma excludeAt_step:
  "isObject c \<and> hasKey c k \<Longrightarrow>
   excludeAt c (k # ks) = (if ks = [] then lodash_unset c k else assignKey c k (excludeAt (readKey c k) ks))"
  by (simp add: excludeAt_Cons)

lemma excludeAt_nonobject: "\<not> isObject c \<Longrightarrow> excludeAt c ks = c"
  by (cases ks) (simp_all add: excludeAt_Cons)

lemma isObject_excludeAt: "isObject (excludeAt c ks) = isObject c"
  by (cases ks) (simp_all add: excludeAt_Cons isObject_unset isObject_assignKey)

lemma excludeAt_removed: "ks \<noteq> [] \<Longrightarrow> lodash_get (excludeAt c ks) ks = JUndef"
proof (induction ks arbitrary: c)
  case Nil
  then show ?case by simp
next
  case (Cons k ks)
  show ?case
  proof (cases "isObject c \<and> hasKey c k")
    case no: False
    then have "readKey c k = JUndef" using readKey_absent readKey_nonobject by blast
    then show ?thesis by (simp add: excludeAt_skip [OF no] get_Cons get_undefined)
  next
    case yes: True
    show ?thesis
    proof (cases "ks = []")
      case True
      then show ?thesis using yes by (simp add: readKey_unset_same)
    next
      case False
      then have "lodash_get (excludeAt (readKey c k) ks) ks = JUndef" by (rule Cons.IH)
      then show ?thesis using yes False by (simp add: excludeAt_Cons get_Cons readKey_assignKey_same)
    qed
  qed
qed

lemma excludeAt_never_adds:
  "lodash_get c qs = JUndef \<Longrightarrow> lodash_get (excludeAt c ks) qs = JUndef"
proof (induction ks arbitrary: c qs)
  case Nil
  then show ?case by simp
next
  case (Cons k ks)
  show ?case
  proof (cases "isObject c \<and> hasKey c k")
    case no: False
    then show ?thesis using Cons.prems by (simp add: excludeAt_skip)
  next
    case yes: True
    show ?thesis
    proof (cases "qs = []")
      case True
      then show ?thesis by simp
    next
      case False
      then obtain k' qs' where qs: "qs = k' # qs'" by (cases qs) auto
      show ?thesis
      proof (cases "k' = k")
        case other: False
        then have "readKey (excludeAt c (k # ks)) k' = readKey c k'"
          using yes by (simp add: excludeAt_Cons readKey_unset_other readKey_assignKey_other)
        then show ?thesis using Cons.prems by (auto simp: qs get_Cons split: if_splits)
      next
        case same: True
        show ?thesis
        proof (cases "ks = []")
          case last: True
          then show ?thesis
            using yes by (simp add: qs same get_Cons readKey_unset_same get_undefined)
        next
          case more: False
          have sub: "readKey (excludeAt c (k # ks)) k = excludeAt (readKey c k) ks"
            using yes more by (simp add: excludeAt_Cons readKey_assignKey_same)
          show ?thesis
          proof (cases "qs' = []")
            case q: True
            then have "readKey c k = JUndef" using Cons.prems by (simp add: qs same)
            then show ?thesis by (simp add: qs same q sub excludeAt_nonobject)
          next
            case f: False
            then have "lodash_get (readKey c k) qs' = JUndef" using Cons.prems by (simp add: qs same get_Cons)
            then have "lodash_get (excludeAt (readKey c k) ks) qs' = JUndef" by (rule Cons.IH)
            then show ?thesis using f by (simp add: qs same get_Cons sub)
          qed
        qed
      qed
    qed
  qed
qed

lemma excludeAt_unrelated:
  "\<not> prefix ks qs \<Longrightarrow> \<not> prefix qs ks \<Longrightarrow> lodash_get (excludeAt c ks) qs = lodash_get c qs"
proof (induction ks arbitrary: c qs)
  case Nil
  then show ?case by simp
next
  case (Cons k ks)
  obtain k' qs' where qs: "qs = k' # qs'" using Cons.prems(2) by (cases qs) auto
  show ?case
  proof (cases "isObject c \<and> hasKey c k")
    case no: False
    then show ?thesis by (simp add: excludeAt_skip)
  next
    case yes: True
    show ?thesis
    proof (cases "k' = k")
      case other: False
      then have "readKey (excludeAt c (k # ks)) k' = readKey c k'"
        using yes by (simp add: excludeAt_Cons readKey_unset_other readKey_assignKey_other)
      then show ?thesis by (simp add: qs get_Cons)
    next
      case same: True
      have ne: "ks \<noteq> []" "qs' \<noteq> []" using Cons.prems same by (auto simp: qs)
      have un: "\<not> prefix ks qs'" "\<not> prefix qs' ks" using Cons.prems same by (auto simp: qs)
      have "lodash_get (excludeAt (readKey c k) ks) qs' = lodash_get (readKey c k) qs'"
        using un by (rule Cons.IH)
      then show ?thesis
        using yes ne by (simp add: qs same excludeAt_Cons get_Cons readKey_assignKey_same)
    qed
  qed
qed

lemma exclude_fold:
  assumes "\<And>p. p \<in> P \<Longrightarrow> lodash_get acc (splitPath p) = JUndef"
  shows "\<forall>p \<in> P \<union> set keys. lodash_get (foldl excludeStep acc keys) (splitPath p) = JUndef"
  using assms
proof (induction keys arbitrary: acc P)
  case Nil
  then show ?case by simp
next
  case (Cons q keys)
  have "lodash_get (excludeStep acc q) (splitPath p) = JUndef" if "p \<in> insert q P" for p
  proof (cases "p = q")
    case True
    then show ?thesis by (simp add: excludeStep_def excludeAt_removed splitPath_nonempty)
  next
    case False
    then show ?thesis using that Cons.prems by (simp add: excludeStep_def excludeAt_never_adds)
  qed
  then have "\<forall>p \<in> insert q P \<union> set keys.
               lodash_get (foldl excludeStep (excludeStep acc q) keys) (splitPath p) = JUndef"
    by (intro Cons.IH) auto
  then show ?case by simp
qed

lemma exclude_fold_never_adds:
  "lodash_get acc ts = JUndef \<Longrightarrow> lodash_get (foldl excludeStep acc keys) ts = JUndef"
  by (induction keys arbitrary: acc) (simp_all add: excludeStep_def excludeAt_never_adds)

lemma exclude_fold_unrelated:
  "(\<And>p. p \<in> set keys \<Longrightarrow> \<not> prefix (splitPath p) ts \<and> \<not> prefix ts (splitPath p)) \<Longrightarrow>
   lodash_get (foldl excludeStep acc keys) ts = lodash_get acc ts"
  by (induction keys arbitrary: acc) (simp_all add: excludeStep_def excludeAt_unrelated)

lemma isObject_exclude_fold: "isObject (foldl excludeStep acc keys) = isObject acc"
  by (induction keys arbitrary: acc) (simp_all add: excludeStep_def isObject_excludeAt)

lemma exclude_result:
  assumes "isObject item"
  shows "p \<in> set excludeKeys \<Longrightarrow> lodash_get (applyExclusions excludeKeys item) (splitPath p) = JUndef"
    and "lodash_get item ts = JUndef \<Longrightarrow> lodash_get (applyExclusions excludeKeys item) ts = JUndef"
    and "(\<And>p. p \<in> set excludeKeys \<Longrightarrow> \<not> prefix (splitPath p) ts \<and> \<not> prefix ts (splitPath p)) \<Longrightarrow>
         lodash_get (applyExclusions excludeKeys item) ts = lodash_get item ts"
proof -
  show "lodash_get (applyExclusions excludeKeys item) (splitPath p) = JUndef" if "p \<in> set excludeKeys"
    using exclude_fold [of "{}" item excludeKeys] that assms by (auto simp: applyExclusions_def)
  show "lodash_get (applyExclusions excludeKeys item) ts = JUndef" if "lodash_get item ts = JUndef"
    using that by (simp add: applyExclusions_def exclude_fold_never_adds)
  show "lodash_get (applyExclusions excludeKeys item) ts = lodash_get item ts"
    if "\<And>p. p \<in> set excludeKeys \<Longrightarrow> \<not> prefix (splitPath p) ts \<and> \<not> prefix ts (splitPath p)"
    using that by (simp add: applyExclusions_def exclude_fold_unrelated)
qed

lemma sensitize_has:
  assumes "lodash_has acc qs" "lodash_has acc ts"
  shows "lodash_has (lodash_set acc qs v) ts \<or> prefix qs ts"
proof (cases rule: path_relation [of ts qs])
  case (under rest)
  then show ?thesis by simp
next
  case (above rest)
  have "ts \<noteq> []" using assms(2) by auto
  then show ?thesis using assms(1) above has_set_above [of acc ts rest v] by simp
next
  case unrelated
  then show ?thesis using assms by (simp add: has_set_unrelated)
qed

lemma sensitize_marked:
  assumes "lodash_has acc qs" and "prefix q0 ts" and "lodash_get acc q0 = JStr m" and "q0 \<noteq> []"
  shows "(prefix q0 ts \<and> lodash_get (lodash_set acc qs (JStr m)) q0 = JStr m)
       \<or> (prefix qs ts \<and> lodash_get (lodash_set acc qs (JStr m)) qs = JStr m)"
proof (cases rule: path_relation [of qs q0])
  case (under rest)
  show ?thesis
  proof (cases "rest = []")
    case True
    have "isObject acc" using assms(1) by (rule has_isObject)
    then show ?thesis using assms(2,4) under True by (simp add: get_set_same)
  next
    case False
    then have "\<not> lodash_has acc qs"
      using assms(3,4) under has_through_string [of acc q0 m rest] by simp
    then show ?thesis using assms(1) by simp
  qed
next
  case (above rest)
  have "isObject acc" using assms(1) by (rule has_isObject)
  moreover have "qs \<noteq> []" using assms(1) by auto
  moreover have "prefix qs ts" using above assms(2) by (auto simp: prefix_def)
  ultimately show ?thesis by (simp add: get_set_same)
next
  case unrelated
  then show ?thesis using assms(2,3) by (simp add: get_set_unrelated)
qed

lemma sensitize_fold:
  assumes "\<And>ts. lodash_has item ts \<Longrightarrow>
             lodash_has acc ts
             \<or> (\<exists>q \<in> D. prefix (splitPath q) ts \<and> lodash_get acc (splitPath q) = JStr SENSITIVE_MARK)"
    and "\<And>p. p \<in> D \<Longrightarrow> lodash_has item (splitPath p) \<Longrightarrow>
             \<exists>q \<in> D. prefix (splitPath q) (splitPath p) \<and> lodash_get acc (splitPath q) = JStr SENSITIVE_MARK"
  shows "\<forall>p \<in> D \<union> set keys. lodash_has item (splitPath p) \<longrightarrow>
           (\<exists>q \<in> D \<union> set keys. prefix (splitPath q) (splitPath p)
              \<and> lodash_get (foldl sensitizeStep acc keys) (splitPath q) = JStr SENSITIVE_MARK)"
  using assms
proof (induction keys arbitrary: acc D)
  case Nil
  then show ?case by auto
next
  case (Cons k keys)
  let ?ks = "splitPath k"
  let ?acc = "sensitizeStep acc k"
  let ?m = "JStr SENSITIVE_MARK"
  have ks: "?ks \<noteq> []" by (rule splitPath_nonempty)
  have marked: "\<exists>w \<in> insert k D. prefix (splitPath w) ts \<and> lodash_get ?acc (splitPath w) = ?m"
    if "q \<in> D" "prefix (splitPath q) ts" "lodash_get acc (splitPath q) = ?m" for q ts
  proof (cases "lodash_has acc ?ks")
    case False
    then show ?thesis using that by (auto simp: sensitizeStep_def)
  next
    case True
    then have acc: "?acc = lodash_set acc ?ks ?m" by (simp add: sensitizeStep_def)
    show ?thesis
      using sensitize_marked [OF True that(2,3) splitPath_nonempty] that(1) unfolding acc by blast
  qed
  have inv1: "lodash_has ?acc ts \<or> (\<exists>q \<in> insert k D. prefix (splitPath q) ts \<and> lodash_get ?acc (splitPath q) = ?m)"
    if "lodash_has item ts" for ts
  proof -
    from Cons.prems(1) [OF that]
    consider (has) "lodash_has acc ts"
      | (mark) q where "q \<in> D" "prefix (splitPath q) ts" "lodash_get acc (splitPath q) = ?m"
      by blast
    then show ?thesis
    proof cases
      case has
      show ?thesis
      proof (cases "lodash_has acc ?ks")
        case False
        then show ?thesis using has by (simp add: sensitizeStep_def)
      next
        case True
        then have acc: "?acc = lodash_set acc ?ks ?m" by (simp add: sensitizeStep_def)
        have obj: "isObject acc" using True by (rule has_isObject)
        from sensitize_has [OF True has, of ?m]
        show ?thesis
        proof
          assume "lodash_has (lodash_set acc ?ks ?m) ts"
          then show ?thesis by (simp add: acc)
        next
          assume "prefix ?ks ts"
          moreover have "lodash_get ?acc ?ks = ?m" using obj ks by (simp add: acc get_set_same)
          ultimately show ?thesis by blast
        qed
      qed
    next
      case mark
      then show ?thesis using marked by blast
    qed
  qed
  have inv2: "\<exists>q \<in> insert k D. prefix (splitPath q) (splitPath p) \<and> lodash_get ?acc (splitPath q) = ?m"
    if pin: "p \<in> insert k D" and phas: "lodash_has item (splitPath p)" for p
  proof (cases "p \<in> D")
    case True
    then obtain q where "q \<in> D" "prefix (splitPath q) (splitPath p)" "lodash_get acc (splitPath q) = ?m"
      using Cons.prems(2) phas by blast
    then show ?thesis using marked by blast
  next
    case False
    then have p: "p = k" using pin by simp
    show ?thesis
    proof (cases "lodash_has acc ?ks")
      case True
      then have "lodash_get ?acc ?ks = ?m"
        using ks has_isObject [OF True] by (simp add: sensitizeStep_def get_set_same)
      then show ?thesis using p by auto
    next
      case f: False
      then obtain q where "q \<in> D" "prefix (splitPath q) ?ks" "lodash_get acc (splitPath q) = ?m"
        using Cons.prems(1) [of ?ks] phas p by auto
      then show ?thesis using marked p by blast
    qed
  qed
  have "\<forall>p \<in> insert k D \<union> set keys. lodash_has item (splitPath p) \<longrightarrow>
           (\<exists>q \<in> insert k D \<union> set keys. prefix (splitPath q) (splitPath p)
              \<and> lodash_get (foldl sensitizeStep ?acc keys) (splitPath q) = ?m)"
    using inv1 inv2 by (intro Cons.IH) auto
  then show ?case by simp
qed

lemma sensitize_fold_unrelated:
  "(\<And>p. p \<in> set keys \<Longrightarrow> \<not> prefix (splitPath p) ts \<and> \<not> prefix ts (splitPath p)) \<Longrightarrow>
   lodash_get (foldl sensitizeStep acc keys) ts = lodash_get acc ts"
  by (induction keys arbitrary: acc) (simp_all add: sensitizeStep_def Let_def get_set_unrelated)

lemma sensitize_result:
  assumes "isObject item"
  shows "p \<in> set sensitiveKeys \<Longrightarrow> lodash_has item (splitPath p) \<Longrightarrow>
           \<exists>q \<in> set sensitiveKeys. prefix (splitPath q) (splitPath p)
              \<and> lodash_get (applySensitization sensitiveKeys item) (splitPath q) = JStr SENSITIVE_MARK"
    and "(\<And>p. p \<in> set sensitiveKeys \<Longrightarrow> \<not> prefix (splitPath p) ts \<and> \<not> prefix ts (splitPath p)) \<Longrightarrow>
         lodash_get (applySensitization sensitiveKeys item) ts = lodash_get item ts"
proof -
  show "\<exists>q \<in> set sensitiveKeys. prefix (splitPath q) (splitPath p)
              \<and> lodash_get (applySensitization sensitiveKeys item) (splitPath q) = JStr SENSITIVE_MARK"
    if "p \<in> set sensitiveKeys" "lodash_has item (splitPath p)"
    using sensitize_fold [of item item "{}" sensitiveKeys] that assms
    by (auto simp: applySensitization_def)
  show "lodash_get (applySensitization sensitiveKeys item) ts = lodash_get item ts"
    if "\<And>p. p \<in> set sensitiveKeys \<Longrightarrow> \<not> prefix (splitPath p) ts \<and> \<not> prefix ts (splitPath p)"
    using that by (simp add: applySensitization_def sensitize_fold_unrelated)
qed

lemma excludeAt_absent: "\<not> lodash_has current ks \<Longrightarrow> excludeAt current ks = current"
proof (induction current ks rule: excludeAt.induct)
  case (1 current)
  then show ?case by simp
next
  case (2 current lastSegment)
  then show ?case by simp
next
  case (3 current segment v va)
  show ?case
  proof (cases "isObject current \<and> hasKey current segment")
    case True
    then have "\<not> lodash_has (lodash_get current [segment]) (v # va)" using 3(2) by simp
    then have "excludeAt (lodash_get current [segment]) (v # va) = readKey current segment"
      using 3(1) True by simp
    then show ?thesis using True by (simp add: assignKey_same)
  next
    case False
    then show ?thesis by auto
  qed
qed

lemma foldl_unchanged: "(\<And>p. p \<in> set ps \<Longrightarrow> f x p = x) \<Longrightarrow> foldl f x ps = x"
  by (induction ps) auto

lemma step_absent:
  assumes "\<not> lodash_has item (splitPath p)"
  shows "includeStep item acc p = acc" and "excludeStep item p = item" and "sensitizeStep item p = item"
  using assms by (simp_all add: includeStep_def excludeStep_def sensitizeStep_def get_absent excludeAt_absent)

lemma stage_absent:
  assumes "\<And>p. p \<in> set ps \<Longrightarrow> \<not> lodash_has item (splitPath p)"
  shows "applyExclusions ps item = item" and "applySensitization ps item = item"
  using assms by (simp_all add: applyExclusions_def applySensitization_def foldl_unchanged step_absent)

lemmas transform_defs =
  postProcess_def processData_def truncateData_def responseConfigGlobal_def firstList_def
  specWithResponseConfig_def basicTool_def no_extensions_def transformItem_def
  createInitialItem_def applyExclusions_def applySensitization_def includeStep_def
  excludeStep_def sensitizeStep_def SENSITIVE_MARK_def

text \<open>
  C7. An item that is no object is returned as it is; an item that is an object is
  transformed by inclusion, then exclusion, then sensitization.

  Inclusion with an empty list returns the item. With a non-empty list it builds an
  object in which every listed path reads what it reads in the item, and in which
  nothing else is defined: a path that is defined in the result lies on or under a listed
  path that is defined in the item, or leads to one.

  Exclusion keeps an object an object. After it every listed path is undefined, no path
  that was undefined has become defined, and a path that lies neither on, under nor
  above a listed path reads what it read before.

  After sensitization every listed path that the item has is covered by the sentinel:
  a listed path that is this path or leads to it reads the sentinel. A path that lies
  neither on, under nor above a listed path reads what it read before.

  A dot-path that the item does not have is a no-op in each of the three steps, and a
  list of such paths leaves the item as it is in the exclusion and the sensitization
  stage. (None of the three steps contains a throw, and none of the modelled functions
  fails, so each is a total function here.)

  With all three lists empty the data pass unchanged; else an array is transformed
  element by element into an array, and any other value is transformed as one item. The
  two examples of the claim are evaluated through \<^verbatim>\<open>postProcess\<close> with the global
  response configuration.
\<close>

theorem C7_include_exclude_sensitize:
  "(\<not> isObject item \<longrightarrow> transformItem item includeKeys excludeKeys sensitiveKeys = item)
   \<and> (isObject item \<longrightarrow>
      transformItem item includeKeys excludeKeys sensitiveKeys
        = applySensitization sensitiveKeys (applyExclusions excludeKeys (createInitialItem includeKeys item)))
   \<and> createInitialItem [] item = item
   \<and> (includeKeys \<noteq> [] \<longrightarrow>
        isObject (createInitialItem includeKeys item)
        \<and> (\<forall>q \<in> set includeKeys.
              lodash_get (createInitialItem includeKeys item) (splitPath q) = lodash_get item (splitPath q))
        \<and> (\<forall>ts. lodash_get (createInitialItem includeKeys item) ts \<noteq> JUndef \<longrightarrow>
              (\<exists>q \<in> set includeKeys. lodash_get item (splitPath q) \<noteq> JUndef
                  \<and> (prefix ts (splitPath q) \<or> prefix (splitPath q) ts))))
   \<and> isObject (applyExclusions excludeKeys item) = isObject item
   \<and> (isObject item \<longrightarrow>
        (\<forall>q \<in> set excludeKeys. lodash_get (applyExclusions excludeKeys item) (splitPath q) = JUndef)
        \<and> (\<forall>ts. lodash_get item ts = JUndef \<longrightarrow> lodash_get (applyExclusions excludeKeys item) ts = JUndef)
        \<and> (\<forall>ts. (\<forall>q \<in> set excludeKeys. \<not> prefix (splitPath q) ts \<and> \<not> prefix ts (splitPath q)) \<longrightarrow>
              lodash_get (applyExclusions excludeKeys item) ts = lodash_get item ts))
   \<and> (isObject item \<longrightarrow>
        (\<forall>q \<in> set sensitiveKeys. lodash_has item (splitPath q) \<longrightarrow>
            (\<exists>r \<in> set sensitiveKeys. prefix (splitPath r) (splitPath q)
                \<and> lodash_get (applySensitization sensitiveKeys item) (splitPath r) = JStr SENSITIVE_MARK))
        \<and> (\<forall>ts. (\<forall>q \<in> set sensitiveKeys. \<not> prefix (splitPath q) ts \<and> \<not> prefix ts (splitPath q)) \<longrightarrow>
              lodash_get (applySensitization sensitiveKeys item) ts = lodash_get item ts))
   \<and> (\<not> lodash_has item (splitPath p) \<longrightarrow>
        includeStep item acc p = acc \<and> excludeStep item p = item \<and> sensitizeStep item p = item)
   \<and> ((\<forall>q \<in> set ps. \<not> lodash_has item (splitPath q)) \<longrightarrow>
        applyExclusions ps item = item \<and> applySensitization ps item = item)
   \<and> (includeKeys = firstList (x_include_response_keys (rawOperation extendTool))
                        (includeResponseKeys (responseConfigGlobal spec))
        \<and> excludeKeys = firstList (x_exclude_response_keys (rawOperation extendTool))
                          (excludeResponseKeys (responseConfigGlobal spec))
        \<and> sensitiveKeys = firstList (x_sensitive_response_fields (rawOperation extendTool))
                            (sensitiveResponseFields (responseConfigGlobal spec)) \<longrightarrow>
        (includeKeys = [] \<and> excludeKeys = [] \<and> sensitiveKeys = [] \<longrightarrow> processData spec extendTool item = item)
        \<and> (\<not> (includeKeys = [] \<and> excludeKeys = [] \<and> sensitiveKeys = []) \<longrightarrow>
             processData spec extendTool (JArr items named)
               = JArr (map (\<lambda>currentItem. transformItem currentItem includeKeys excludeKeys sensitiveKeys) items) []
             \<and> ((\<forall>xs ys. item \<noteq> JArr xs ys) \<longrightarrow>
                  processData spec extendTool item = transformItem item includeKeys excludeKeys sensitiveKeys)))
   \<and> postProcess pretty
        (specWithResponseConfig \<lparr>maxLength = None, includeResponseKeys = None,
           excludeResponseKeys = Some [''b''], sensitiveResponseFields = None\<rparr>)
        (basicTool ''get::/x'' ''get'' ''/x'' no_extensions)
        (JObj [(''a'', JNum 1), (''b'', JNum 2), (''c'', JNum 3)])
       = JObj [(''a'', JNum 1), (''c'', JNum 3)]
   \<and> postProcess pretty
        (specWithResponseConfig \<lparr>maxLength = None, includeResponseKeys = None,
           excludeResponseKeys = Some [''b''], sensitiveResponseFields = Some [''a'']\<rparr>)
        (basicTool ''get::/x'' ''get'' ''/x'' no_extensions)
        (JObj [(''a'', JNum 1), (''b'', JNum 2), (''c'', JNum 3)])
       = JObj [(''a'', JStr ''*SENSITIVE*''), (''c'', JNum 3)]"
proof -
  have order: "\<not> isObject item \<longrightarrow> transformItem item includeKeys excludeKeys sensitiveKeys = item"
    "isObject item \<longrightarrow>
      transformItem item includeKeys excludeKeys sensitiveKeys
        = applySensitization sensitiveKeys (applyExclusions excludeKeys (createInitialItem includeKeys item))"
    by (simp_all add: transformItem_def)
  have copy: "createInitialItem [] item = item" by (simp add: createInitialItem_def)
  have included: "includeKeys \<noteq> [] \<longrightarrow>
        isObject (createInitialItem includeKeys item)
        \<and> (\<forall>q \<in> set includeKeys.
              lodash_get (createInitialItem includeKeys item) (splitPath q) = lodash_get item (splitPath q))
        \<and> (\<forall>ts. lodash_get (createInitialItem includeKeys item) ts \<noteq> JUndef \<longrightarrow>
              (\<exists>q \<in> set includeKeys. lodash_get item (splitPath q) \<noteq> JUndef
                  \<and> (prefix ts (splitPath q) \<or> prefix (splitPath q) ts)))"
    using include_result [where includeKeys = includeKeys and item = item] by blast
  have object: "isObject (applyExclusions excludeKeys item) = isObject item"
    by (simp add: applyExclusions_def isObject_exclude_fold)
  have exclude: "isObject item \<longrightarrow>
        (\<forall>q \<in> set excludeKeys. lodash_get (applyExclusions excludeKeys item) (splitPath q) = JUndef)
        \<and> (\<forall>ts. lodash_get item ts = JUndef \<longrightarrow> lodash_get (applyExclusions excludeKeys item) ts = JUndef)
        \<and> (\<forall>ts. (\<forall>q \<in> set excludeKeys. \<not> prefix (splitPath q) ts \<and> \<not> prefix ts (splitPath q)) \<longrightarrow>
              lodash_get (applyExclusions excludeKeys item) ts = lodash_get item ts)"
    using exclude_result [where excludeKeys = excludeKeys and item = item] by blast
  have sensitize: "isObject item \<longrightarrow>
        (\<forall>q \<in> set sensitiveKeys. lodash_has item (splitPath q) \<longrightarrow>
            (\<exists>r \<in> set sensitiveKeys. prefix (splitPath r) (splitPath q)
                \<and> lodash_get (applySensitization sensitiveKeys item) (splitPath r) = JStr SENSITIVE_MARK))
        \<and> (\<forall>ts. (\<forall>q \<in> set sensitiveKeys. \<not> prefix (splitPath q) ts \<and> \<not> prefix ts (splitPath q)) \<longrightarrow>
              lodash_get (applySensitization sensitiveKeys item) ts = lodash_get item ts)"
    using sensitize_result [where sensitiveKeys = sensitiveKeys and item = item] by blast
  have absent: "\<not> lodash_has item (splitPath p) \<longrightarrow>
        includeStep item acc p = acc \<and> excludeStep item p = item \<and> sensitizeStep item p = item"
    using step_absent by blast
  have absent_all: "(\<forall>q \<in> set ps. \<not> lodash_has item (splitPath q)) \<longrightarrow>
        applyExclusions ps item = item \<and> applySensitization ps item = item"
    using stage_absent [of ps item] by blast
  have items: "includeKeys = firstList (x_include_response_keys (rawOperation extendTool))
                        (includeResponseKeys (responseConfigGlobal spec))
        \<and> excludeKeys = firstList (x_exclude_response_keys (rawOperation extendTool))
                          (excludeResponseKeys (responseConfigGlobal spec))
        \<and> sensitiveKeys = firstList (x_sensitive_response_fields (rawOperation extendTool))
                            (sensitiveResponseFields (responseConfigGlobal spec)) \<longrightarrow>
        (includeKeys = [] \<and> excludeKeys = [] \<and> sensitiveKeys = [] \<longrightarrow> processData spec extendTool item = item)
        \<and> (\<not> (includeKeys = [] \<and> excludeKeys = [] \<and> sensitiveKeys = []) \<longrightarrow>
             processData spec extendTool (JArr items named)
               = JArr (map (\<lambda>currentItem. transformItem currentItem includeKeys excludeKeys sensitiveKeys) items) []
             \<and> ((\<forall>xs ys. item \<noteq> JArr xs ys) \<longrightarrow>
                  processData spec extendTool item = transformItem item includeKeys excludeKeys sensitiveKeys))"
    by (cases item) (auto simp: processData_def Let_def)
  have first: "postProcess pretty
        (specWithResponseConfig \<lparr>maxLength = None, includeResponseKeys = None,
           excludeResponseKeys = Some [''b''], sensitiveResponseFields = None\<rparr>)
        (basicTool ''get::/x'' ''get'' ''/x'' no_extensions)
        (JObj [(''a'', JNum 1), (''b'', JNum 2), (''c'', JNum 3)])
       = JObj [(''a'', JNum 1), (''c'', JNum 3)]"
    by (simp add: transform_defs path_defs)
  have second: "postProcess pretty
        (specWithResponseConfig \<lparr>maxLength = None, includeResponseKeys = None,
           excludeResponseKeys = Some [''b''], sensitiveResponseFields = Some [''a'']\<rparr>)
        (basicTool ''get::/x'' ''get'' ''/x'' no_extensions)
        (JObj [(''a'', JNum 1), (''b'', JNum 2), (''c'', JNum 3)])
       = JObj [(''a'', JStr ''*SENSITIVE*''), (''c'', JNum 3)]"
    by (simp add: transform_defs path_defs)
  show ?thesis
    using order copy included object exclude sensitize absent absent_all items first second
    by (intro conjI)
qed


text \<open>
  An instance: a nested item with an array, the path \<^verbatim>\<open>user.token\<close> that it does not
  have, and all three lists at once (the included \<^verbatim>\<open>user.name\<close> is kept and then
  masked, \<^verbatim>\<open>user.tags\<close> is not listed and is gone, the excluded \<^verbatim>\<open>id\<close> is gone, the
  absent paths change nothing).
\<close>

theorem C7_include_exclude_sensitize_witness:
  "isObject (JObj [(''id'', JNum 7), (''user'', JObj [(''name'', JStr ''n''), (''tags'', JArr [JStr ''a'', JStr ''b''] [])])])
   \<and> [''id'', ''user.name'', ''user.token''] \<noteq> []
   \<and> lodash_get (createInitialItem [''id'', ''user.name'', ''user.token''] (JObj [(''id'', JNum 7), (''user'', JObj [(''name'', JStr ''n''), (''tags'', JArr [JStr ''a'', JStr ''b''] [])])])) (splitPath ''user.name'')
       = JStr ''n''
   \<and> lodash_get (createInitialItem [''id'', ''user.name'', ''user.token''] (JObj [(''id'', JNum 7), (''user'', JObj [(''name'', JStr ''n''), (''tags'', JArr [JStr ''a'', JStr ''b''] [])])])) (splitPath ''user.tags'')
       = JUndef
   \<and> lodash_get (applyExclusions [''user.tags.0''] (JObj [(''id'', JNum 7), (''user'', JObj [(''name'', JStr ''n''), (''tags'', JArr [JStr ''a'', JStr ''b''] [])])])) (splitPath ''user.tags.0'') = JUndef
   \<and> lodash_get (applyExclusions [''user.tags.0''] (JObj [(''id'', JNum 7), (''user'', JObj [(''name'', JStr ''n''), (''tags'', JArr [JStr ''a'', JStr ''b''] [])])])) (splitPath ''user.tags.1'') = JStr ''b''
   \<and> lodash_has (JObj [(''id'', JNum 7), (''user'', JObj [(''name'', JStr ''n''), (''tags'', JArr [JStr ''a'', JStr ''b''] [])])]) (splitPath ''user.name'')
   \<and> lodash_get (applySensitization [''user.name''] (JObj [(''id'', JNum 7), (''user'', JObj [(''name'', JStr ''n''), (''tags'', JArr [JStr ''a'', JStr ''b''] [])])])) (splitPath ''user.name'') = JStr ''*SENSITIVE*''
   \<and> \<not> lodash_has (JObj [(''id'', JNum 7), (''user'', JObj [(''name'', JStr ''n''), (''tags'', JArr [JStr ''a'', JStr ''b''] [])])]) (splitPath ''user.token'')
   \<and> excludeStep (JObj [(''id'', JNum 7), (''user'', JObj [(''name'', JStr ''n''), (''tags'', JArr [JStr ''a'', JStr ''b''] [])])]) ''user.token'' = JObj [(''id'', JNum 7), (''user'', JObj [(''name'', JStr ''n''), (''tags'', JArr [JStr ''a'', JStr ''b''] [])])]
   \<and> transformItem (JObj [(''id'', JNum 7), (''user'', JObj [(''name'', JStr ''n''), (''tags'', JArr [JStr ''a'', JStr ''b''] [])])])
        [''id'', ''user.name'', ''user.token''] [''id'', ''x.y''] [''user.name'', ''user.token'']
       = JObj [(''user'', JObj [(''name'', JStr ''*SENSITIVE*'')])]"
proof -
  let ?item = "JObj [(''id'', JNum 7), (''user'', JObj [(''name'', JStr ''n''), (''tags'', JArr [JStr ''a'', JStr ''b''] [])])]"
  let ?inc = "[''id'', ''user.name'', ''user.token'']"
  have obj: "isObject ?item" by simp
  have ne: "?inc \<noteq> []" by simp
  have kept: "lodash_get (createInitialItem ?inc ?item) (splitPath ''user.name'')
                = lodash_get ?item (splitPath ''user.name'')"
    using C7_include_exclude_sensitize
      [where includeKeys = ?inc and item = ?item,
       THEN conjunct2, THEN conjunct2, THEN conjunct2, THEN conjunct1]
    by simp
  have name: "lodash_get ?item (splitPath ''user.name'') = JStr ''n''"
    by (simp add: path_defs)
  have c3: "lodash_get (createInitialItem ?inc ?item) (splitPath ''user.name'') = JStr ''n''"
    using kept by (simp only: name)
  have c4: "lodash_get (createInitialItem ?inc ?item) (splitPath ''user.tags'') = JUndef"
    by (simp add: transform_defs path_defs)
  have c5: "lodash_get (applyExclusions [''user.tags.0''] ?item) (splitPath ''user.tags.0'') = JUndef"
    "lodash_get (applyExclusions [''user.tags.0''] ?item) (splitPath ''user.tags.1'') = JStr ''b''"
    by (simp_all add: transform_defs path_defs upt_conv_Cons)
  have c6: "lodash_has ?item (splitPath ''user.name'')" by (simp add: path_defs)
  have c7: "lodash_get (applySensitization [''user.name''] ?item) (splitPath ''user.name'')
              = JStr ''*SENSITIVE*''"
    by (simp add: transform_defs path_defs)
  have c8: "\<not> lodash_has ?item (splitPath ''user.token'')" by (simp add: path_defs)
  have c9: "excludeStep ?item ''user.token'' = ?item"
    by (simp add: transform_defs path_defs)
  have c10: "transformItem ?item ?inc [''id'', ''x.y''] [''user.name'', ''user.token'']
       = JObj [(''user'', JObj [(''name'', JStr ''*SENSITIVE*'')])]"
    by (simp add: transform_defs path_defs)
  show ?thesis using obj ne c3 c4 c5 c6 c7 c8 c9 c10 by (intro conjI)
qed

subsection \<open>The Spec Filter and its argument\<close>

lemma assign_subset: "set (assign kvs k v) \<subseteq> insert (k, v) (set kvs)"
  by (induction kvs) (auto split: if_splits)

lemma filterPathItem_subset:
  "filterPathItem re rules path item acc = Some out \<Longrightarrow> set out \<subseteq> set acc \<union> set item"
proof (induction item arbitrary: acc)
  case Nil
  then show ?case by simp
next
  case (Cons e item)
  obtain m operation where e: "e = (m, operation)" by (cases e)
  show ?case
  proof (cases "m \<in> set httpMethods")
    case False
    then show ?thesis using Cons.prems Cons.IH [of acc] by (auto simp: e)
  next
    case True
    then obtain inc where inc: "included re rules path m operation = Some inc"
      and rest: "filterPathItem re rules path item (if inc then assign acc m operation else acc) = Some out"
      using Cons.prems by (auto simp: e split: option.splits)
    from Cons.IH [OF rest] assign_subset [of acc m operation]
    show ?thesis by (auto simp: e split: if_splits)
  qed
qed

lemma filterPaths_from_input:
  "filterPaths re rules ps acc = Some out \<Longrightarrow> (path, item) \<in> set out \<Longrightarrow>
   (path, item) \<in> set acc \<or> (\<exists>item0. (path, item0) \<in> set ps \<and> set item \<subseteq> set item0)"
proof (induction ps arbitrary: acc)
  case Nil
  then show ?case by simp
next
  case (Cons e ps)
  obtain p0 i0 where e: "e = (p0, i0)" by (cases e)
  from Cons.prems(1) obtain fpi where fpi: "filterPathItem re rules p0 i0 [] = Some fpi"
    and rest: "filterPaths re rules ps (if fpi \<noteq> [] then assign acc p0 fpi else acc) = Some out"
    by (auto simp: e split: option.splits)
  from Cons.IH [OF rest Cons.prems(2)]
  consider "(path, item) \<in> set (if fpi \<noteq> [] then assign acc p0 fpi else acc)"
    | "\<exists>item0. (path, item0) \<in> set ps \<and> set item \<subseteq> set item0" by blast
  then show ?case
  proof cases
    case 1
    then have "(path, item) \<in> set acc \<or> (path, item) = (p0, fpi)"
      using assign_subset [of acc p0 fpi] by (auto split: if_splits)
    then show ?thesis
    proof
      assume "(path, item) \<in> set acc" then show ?thesis by simp
    next
      assume eq: "(path, item) = (p0, fpi)"
      have "set fpi \<subseteq> set i0" using filterPathItem_subset [OF fpi] by simp
      then show ?thesis using eq by (auto simp: e)
    qed
  next
    case 2
    then show ?thesis by (auto simp: e)
  qed
qed

lemma filterSpec_cases:
  assumes run: "filterSpec re st spec = Some (st', result)"
  shows "(st' = st \<and> result = spec \<and> (x_filter_rules (st spec) = None \<or> x_filter_rules (st spec) = Some []))
       \<or> (\<exists>rules filteredPaths. x_filter_rules (st spec) = Some rules \<and> rules \<noteq> []
             \<and> filterPaths re rules (paths (st spec)) [] = Some filteredPaths
             \<and> st' = st(spec := (st spec)\<lparr>paths := filteredPaths\<rparr>) \<and> result = spec)"
proof (cases "x_filter_rules (st spec)")
  case None
  with run show ?thesis by (simp add: filterSpec_def)
next
  case (Some rules)
  show ?thesis
  proof (cases "rules = []")
    case True
    with run Some show ?thesis by (simp add: filterSpec_def)
  next
    case False
    show ?thesis
    proof (cases "filterPaths re rules (paths (st spec)) []")
      case None
      with run Some False show ?thesis by (simp add: filterSpec_def)
    next
      case (Some filteredPaths)
      have "filterSpec re st spec = Some (st(spec := (st spec)\<lparr>paths := filteredPaths\<rparr>), spec)"
        using \<open>x_filter_rules (st spec) = Some rules\<close> False Some by (simp add: filterSpec_def)
      with run have "Some (st(spec := (st spec)\<lparr>paths := filteredPaths\<rparr>), spec) = Some (st', result)"
        by (simp only:)
      then have "st' = st(spec := (st spec)\<lparr>paths := filteredPaths\<rparr>)" "result = spec"
        by blast+
      then show ?thesis
        using \<open>x_filter_rules (st spec) = Some rules\<close> False Some by blast
    qed
  qed
qed

lemmas filter_defs =
  filterSpec_def inputPathsAfter_def storeOf_def oneOperationSpec_def excludeEverything_def
  httpMethods_def ruleMatches_def patternFails_def tagsFail_def no_extensions_def

text \<open>
  C8, as the claim states it: the paths map of the input document is the same before and
  after the call. With the single rule \<^verbatim>\<open>{exclude: true}\<close> the document that held one
  operation on \<^verbatim>\<open>/a\<close> before the call holds the empty paths map after it.
\<close>

theorem C8_input_paths_overwritten_counterexample:
  "paths (storeOf (oneOperationSpec (Some [excludeEverything])) 0) = [(''/a'', [(''get'', no_extensions)])]
   \<and> inputPathsAfter noRegex (storeOf (oneOperationSpec (Some [excludeEverything]))) 0 = Some []"
  by (simp add: filter_defs)

text \<open>
  C8, amended. When \<^verbatim>\<open>filterSpec\<close> returns, it returns its argument; no other document
  of the store has changed; the argument's document has changed in its \<^verbatim>\<open>paths\<close> member
  at most, which now holds the filtered path map; without filter rules (absent or empty)
  the store is unchanged; and every path item of the filtered map consists of entries of
  the input's path item of the same path, so each operation kept is the input's
  operation under its path and method, unchanged.
\<close>

theorem C8_filter_changes_only_the_paths_member:
  "filterSpec re st spec = Some (st', result) \<longrightarrow>
     result = spec
     \<and> (\<forall>r. r \<noteq> spec \<longrightarrow> st' r = st r)
     \<and> st' spec = (st spec)\<lparr>paths := paths (st' spec)\<rparr>
     \<and> (x_filter_rules (st spec) = None \<or> x_filter_rules (st spec) = Some [] \<longrightarrow> st' = st)
     \<and> (\<forall>path item. (path, item) \<in> set (paths (st' spec)) \<longrightarrow>
           (\<exists>item0. (path, item0) \<in> set (paths (st spec)) \<and> set item \<subseteq> set item0))"
proof
  assume run: "filterSpec re st spec = Some (st', result)"
  from filterSpec_cases [OF run]
  show "result = spec
     \<and> (\<forall>r. r \<noteq> spec \<longrightarrow> st' r = st r)
     \<and> st' spec = (st spec)\<lparr>paths := paths (st' spec)\<rparr>
     \<and> (x_filter_rules (st spec) = None \<or> x_filter_rules (st spec) = Some [] \<longrightarrow> st' = st)
     \<and> (\<forall>path item. (path, item) \<in> set (paths (st' spec)) \<longrightarrow>
           (\<exists>item0. (path, item0) \<in> set (paths (st spec)) \<and> set item \<subseteq> set item0))"
  proof -
    from filterSpec_cases [OF run]
    consider (same) "st' = st" "result = spec"
      | (filtered) rules filteredPaths where
          "x_filter_rules (st spec) = Some rules" "rules \<noteq> []"
          "filterPaths re rules (paths (st spec)) [] = Some filteredPaths"
          "st' = st(spec := (st spec)\<lparr>paths := filteredPaths\<rparr>)" "result = spec"
      by blast
    then show ?thesis
    proof cases
      case same
      have "\<forall>path item. (path, item) \<in> set (paths (st spec)) \<longrightarrow>
             (\<exists>item0. (path, item0) \<in> set (paths (st spec)) \<and> set item \<subseteq> set item0)"
        by blast
      then show ?thesis unfolding same by simp
    next
      case filtered
      have kept: "\<forall>path item. (path, item) \<in> set filteredPaths \<longrightarrow>
             (\<exists>item0. (path, item0) \<in> set (paths (st spec)) \<and> set item \<subseteq> set item0)"
        using filterPaths_from_input [OF filtered(3)] by auto
      show ?thesis unfolding filtered(4,5) using filtered(1,2) kept by simp
    qed
  qed
qed

text \<open>An instance: the call of the counterexample.\<close>

theorem C8_filter_changes_only_the_paths_member_witness:
  "filterSpec noRegex (storeOf (oneOperationSpec (Some [excludeEverything]))) 0
     = Some ((storeOf (oneOperationSpec (Some [excludeEverything])))
               (0 := (oneOperationSpec (Some [excludeEverything]))\<lparr>paths := []\<rparr>), 0)
   \<and> ((storeOf (oneOperationSpec (Some [excludeEverything])))
               (0 := (oneOperationSpec (Some [excludeEverything]))\<lparr>paths := []\<rparr>)) 1
       = storeOf (oneOperationSpec (Some [excludeEverything])) 1"
proof -
  let ?st = "storeOf (oneOperationSpec (Some [excludeEverything]))"
  let ?st' = "?st(0 := (oneOperationSpec (Some [excludeEverything]))\<lparr>paths := []\<rparr>)"
  have run: "filterSpec noRegex ?st 0 = Some (?st', 0)"
    by (simp add: filter_defs)
  have "\<forall>r. r \<noteq> 0 \<longrightarrow> ?st' r = ?st r"
    using C8_filter_changes_only_the_paths_member [of noRegex ?st 0 ?st' 0] run by blast
  then have "?st' 1 = ?st 1" by (rule allE) (rule mp, assumption, simp)
  with run show ?thesis by (rule conjI)
qed

subsection \<open>The retry loop\<close>

lemma backoff_step: "a < i \<Longrightarrow> [2 ^ a * 1000] @ backoff (Suc a) i = backoff a i"
  by (simp add: backoff_def upt_conv_Cons)

lemma retry_calls_bound:
  "0 \<le> attempt \<Longrightarrow> attempt \<le> r + 1 \<Longrightarrow>
   fst (snd (retryLoop fetch nm req r attempt waited)) \<le> nat r + 1"
proof (induction fetch nm req r attempt waited rule: retryLoop.induct)
  case (1 fetch nm req r attempt waited)
  show ?case
  proof (cases "attempt \<le> r")
    case False
    then show ?thesis using 1(2,3) by (subst retryLoop.simps) auto
  next
    case True
    show ?thesis
    proof (cases "fetch (nat attempt) req")
      case (Inr resp)
      then show ?thesis using True 1(2) by (subst retryLoop.simps) auto
    next
      case (Inl message)
      show ?thesis
      proof (cases "attempt = r")
        case True
        then show ?thesis using Inl 1(2) by (subst retryLoop.simps) auto
      next
        case False
        have "fst (snd (retryLoop fetch nm req r (attempt + 1) (waited @ [2 ^ nat attempt * 1000]))) \<le> nat r + 1"
          using 1(1) [OF True Inl False] 1(2) True False by simp
        then show ?thesis using True Inl False by (subst retryLoop.simps) simp
      qed
    qed
  qed
qed

lemma retry_success:
  "i - a = n \<Longrightarrow> a \<le> i \<Longrightarrow> int i \<le> r \<Longrightarrow>
   (\<And>j. a \<le> j \<Longrightarrow> j < i \<Longrightarrow> isl (fetch j req)) \<Longrightarrow> fetch i req = Inr resp \<Longrightarrow>
   retryLoop fetch nm req r (int a) waited = (Inr resp, i + 1, waited @ backoff a i)"
proof (induction n arbitrary: a waited)
  case 0
  then have "a = i" by simp
  then show ?case using 0 by (subst retryLoop.simps) (simp add: backoff_def)
next
  case (Suc n)
  then have lt: "a < i" by simp
  then obtain message where m: "fetch a req = Inl message"
    using Suc.prems(4) [of a] by (cases "fetch a req") auto
  have ne: "int a \<noteq> r" using lt Suc.prems(3) by simp
  have le: "int a \<le> r" using lt Suc.prems(3) by simp
  have step: "retryLoop fetch nm req r (int a) waited
      = retryLoop fetch nm req r (int (Suc a)) (waited @ [2 ^ a * 1000])"
    using m ne le by (subst retryLoop.simps) (simp add: add.commute)
  have "retryLoop fetch nm req r (int (Suc a)) (waited @ [2 ^ a * 1000])
      = (Inr resp, i + 1, (waited @ [2 ^ a * 1000]) @ backoff (Suc a) i)"
    using Suc.prems lt by (intro Suc.IH) auto
  then show ?case using step backoff_step [OF lt] by simp
qed

lemma retry_exhausted:
  "r' - a = n \<Longrightarrow> a \<le> r' \<Longrightarrow> r = int r' \<Longrightarrow>
   (\<And>j. a \<le> j \<Longrightarrow> j \<le> r' \<Longrightarrow> fetch j req = Inl (messages j)) \<Longrightarrow>
   retryLoop fetch nm req r (int a) waited
     = (Inl (Failure (''Failed to invoke tool '' @ nm @ '': '' @ messages r')), r' + 1, waited @ backoff a r')"
proof (induction n arbitrary: a waited)
  case 0
  then have "a = r'" by simp
  then show ?case using 0 by (subst retryLoop.simps) (simp add: backoff_def)
next
  case (Suc n)
  then have lt: "a < r'" by simp
  have m: "fetch a req = Inl (messages a)" using Suc.prems(4) [of a] lt by simp
  have step: "retryLoop fetch nm req r (int a) waited
      = retryLoop fetch nm req r (int (Suc a)) (waited @ [2 ^ a * 1000])"
    using m lt Suc.prems(3) by (subst retryLoop.simps) (simp add: add.commute)
  have "retryLoop fetch nm req r (int (Suc a)) (waited @ [2 ^ a * 1000])
      = (Inl (Failure (''Failed to invoke tool '' @ nm @ '': '' @ messages r')), r' + 1,
         (waited @ [2 ^ a * 1000]) @ backoff (Suc a) r')"
    using Suc.prems lt by (intro Suc.IH) auto
  then show ?case using step backoff_step [OF lt] by simp
qed

lemma invoke_loop:
  "buildRequest pf spec extendTool params = Inr req \<Longrightarrow>
   retryLoop fetch (t_name extendTool) req (configuredRetries spec) 0 [] = (out, n, waited) \<Longrightarrow>
   invoke pf fetch spec extendTool params =
     (case out of
        Inl e \<Rightarrow> (Inl e, n, waited)
      | Inr resp \<Rightarrow>
          (case parseResponse resp of
             Inl e \<Rightarrow> (Inl e, n, waited)
           | Inr data' \<Rightarrow>
               (Inr \<lparr>ir_status = resp_status resp, ir_statusText = resp_statusText resp,
                     ir_headers = resp_headers resp,
                     ir_data = postProcess (stringifyPretty pf) spec extendTool data',
                     ir_raw = resp\<rparr>, n, waited)))"
  by (simp add: invoke_def split: sum.splits)

lemmas example_defs =
  examplePlatform_def specWithRequestConfig_def requestConfigFor_def callWith_def okResponse_def
  failsTwice_def requestConfigGlobal_def configuredRetries_def basicTool_def no_extensions_def
  sensitiveKV_def lodash_extend_def truthy_def js_or_def pathStep_def proxyStep_def authStep_def
  globalBaseUrl_def configuredHeaders_def baseAddress_def targetOf_def invokeMethod_def filledPath_def
  mergedInputParams_def
  toUpperCase_def toLowerCase_def upper_char_def lower_char_def lower_letters_def upper_letters_def
  stringValues_def

lemma example_request:
  "buildRequest examplePlatform (specWithRequestConfig (requestConfigFor ''https://api.example.com'' [] 2))
     (basicTool ''test-tool'' ''get'' ''/test'' no_extensions) (callWith [] [])
   = Inr \<lparr>r_url = \<lparr>u_origin = ''https://api.example.com'', u_pathname = ''/test'', u_search = []\<rparr>,
          r_method = ''GET'', r_headers = [], r_body = None, r_timeout = 30000\<rparr>"
  by (simp add: buildRequest_def buildTarget_def example_defs Let_def)

lemma invoke_calls:
  "fst (snd (invoke pf fetch spec extendTool params)) =
     (case buildRequest pf spec extendTool params of
        Inl e \<Rightarrow> 0
      | Inr req \<Rightarrow> fst (snd (retryLoop fetch (t_name extendTool) req (configuredRetries spec) 0 [])))"
  by (simp add: invoke_def split: sum.splits prod.splits)

lemma example_loop:
  "retryLoop failsTwice nm req 2 0 [] = (Inr okResponse, 3, [1000, 2000])"
proof -
  have "retryLoop failsTwice nm req 2 (int 0) [] = (Inr okResponse, 2 + 1, [] @ backoff 0 2)"
    by (rule retry_success [where n = 2]) (simp_all add: failsTwice_def)
  moreover have "backoff 0 2 = [1000, 2000]"
    by (simp add: backoff_def upt_rec numeral_2_eq_2)
  ultimately show ?thesis by simp
qed

text \<open>
  C4. With a retry count \<open>r\<close> that is not negative, \<^verbatim>\<open>invoke\<close> calls \<^verbatim>\<open>fetch\<close> at most
  \<open>r + 1\<close> times. When the calls before call \<open>i\<close> throw and call \<open>i\<close> (at most \<open>r\<close>)
  returns a response, whatever its status, the loop ends with that response after
  \<open>i + 1\<close> calls and the waits \<open>2\<^sup>j\<close> seconds after each failed call \<open>j\<close>, and
  \<^verbatim>\<open>invoke\<close> returns it post-processed. When all \<open>r + 1\<close> calls throw, \<^verbatim>\<open>invoke\<close>
  fails with one error that names the tool and carries the message of the last call.
  With a fetch that throws twice and then returns and two retries, the invocation
  succeeds after exactly three calls.
\<close>

theorem C4_retry_with_backoff:
  "(0 \<le> configuredRetries spec \<longrightarrow>
      fst (snd (invoke pf fetch spec extendTool params)) \<le> nat (configuredRetries spec) + 1)
   \<and> (buildRequest pf spec extendTool params = Inr req \<and> int i \<le> configuredRetries spec
        \<and> (\<forall>j<i. isl (fetch j req)) \<and> fetch i req = Inr resp \<longrightarrow>
        retryLoop fetch (t_name extendTool) req (configuredRetries spec) 0 [] = (Inr resp, i + 1, backoff 0 i)
        \<and> snd (invoke pf fetch spec extendTool params) = (i + 1, backoff 0 i)
        \<and> (parseResponse resp = Inr body \<longrightarrow>
             fst (invoke pf fetch spec extendTool params)
               = Inr \<lparr>ir_status = resp_status resp, ir_statusText = resp_statusText resp,
                      ir_headers = resp_headers resp,
                      ir_data = postProcess (stringifyPretty pf) spec extendTool body,
                      ir_raw = resp\<rparr>))
   \<and> (buildRequest pf spec extendTool params = Inr req \<and> 0 \<le> configuredRetries spec
        \<and> (\<forall>j \<le> nat (configuredRetries spec). fetch j req = Inl (messages j)) \<longrightarrow>
        invoke pf fetch spec extendTool params
          = (Inl (Failure (''Failed to invoke tool '' @ t_name extendTool @ '': ''
                             @ messages (nat (configuredRetries spec)))),
             nat (configuredRetries spec) + 1, backoff 0 (nat (configuredRetries spec))))
   \<and> invoke examplePlatform failsTwice
        (specWithRequestConfig (requestConfigFor ''https://api.example.com'' [] 2))
        (basicTool ''test-tool'' ''get'' ''/test'' no_extensions) (callWith [] [])
       = (Inr \<lparr>ir_status = 200, ir_statusText = ''OK'',
               ir_headers = [(''content-type'', ''application/json'')],
               ir_data = JObj [(''success'', JBool True)], ir_raw = okResponse\<rparr>, 3, [1000, 2000])"
proof (intro conjI impI)
  assume r: "0 \<le> configuredRetries spec"
  show "fst (snd (invoke pf fetch spec extendTool params)) \<le> nat (configuredRetries spec) + 1"
  proof (cases "buildRequest pf spec extendTool params")
    case (Inl e)
    then show ?thesis by (simp add: invoke_calls)
  next
    case (Inr req')
    have "fst (snd (retryLoop fetch (t_name extendTool) req' (configuredRetries spec) 0 []))
            \<le> nat (configuredRetries spec) + 1"
      using r by (intro retry_calls_bound) simp_all
    then show ?thesis using Inr by (simp add: invoke_calls)
  qed
next
  assume h: "buildRequest pf spec extendTool params = Inr req \<and> int i \<le> configuredRetries spec
        \<and> (\<forall>j<i. isl (fetch j req)) \<and> fetch i req = Inr resp"
  have "retryLoop fetch (t_name extendTool) req (configuredRetries spec) (int 0) []
          = (Inr resp, i + 1, [] @ backoff 0 i)"
    using h by (intro retry_success [where n = i]) simp_all
  then show loop: "retryLoop fetch (t_name extendTool) req (configuredRetries spec) 0 []
          = (Inr resp, i + 1, backoff 0 i)"
    by simp
  have built: "buildRequest pf spec extendTool params = Inr req" using h by simp
  show "snd (invoke pf fetch spec extendTool params) = (i + 1, backoff 0 i)"
    by (simp add: invoke_loop [OF built loop] split: sum.splits)
  assume "parseResponse resp = Inr body"
  then show "fst (invoke pf fetch spec extendTool params)
               = Inr \<lparr>ir_status = resp_status resp, ir_statusText = resp_statusText resp,
                      ir_headers = resp_headers resp,
                      ir_data = postProcess (stringifyPretty pf) spec extendTool body,
                      ir_raw = resp\<rparr>"
    by (simp add: invoke_loop [OF built loop])
next
  assume h: "buildRequest pf spec extendTool params = Inr req \<and> 0 \<le> configuredRetries spec
        \<and> (\<forall>j \<le> nat (configuredRetries spec). fetch j req = Inl (messages j))"
  let ?r = "nat (configuredRetries spec)"
  have "retryLoop fetch (t_name extendTool) req (configuredRetries spec) (int 0) []
          = (Inl (Failure (''Failed to invoke tool '' @ t_name extendTool @ '': '' @ messages ?r)),
             ?r + 1, [] @ backoff 0 ?r)"
    using h by (intro retry_exhausted [where n = ?r]) simp_all
  then have loop: "retryLoop fetch (t_name extendTool) req (configuredRetries spec) 0 []
          = (Inl (Failure (''Failed to invoke tool '' @ t_name extendTool @ '': '' @ messages ?r)),
             ?r + 1, backoff 0 ?r)"
    by simp
  have built: "buildRequest pf spec extendTool params = Inr req" using h by simp
  show "invoke pf fetch spec extendTool params
          = (Inl (Failure (''Failed to invoke tool '' @ t_name extendTool @ '': '' @ messages ?r)),
             ?r + 1, backoff 0 ?r)"
    by (simp add: invoke_loop [OF built loop])
next
  let ?spec = "specWithRequestConfig (requestConfigFor ''https://api.example.com'' [] 2)"
  let ?tool = "basicTool ''test-tool'' ''get'' ''/test'' no_extensions"
  have r: "configuredRetries ?spec = 2" by (simp add: example_defs)
  have nm: "t_name ?tool = ''test-tool''" by (simp add: basicTool_def)
  have loop: "retryLoop failsTwice (t_name ?tool)
        \<lparr>r_url = \<lparr>u_origin = ''https://api.example.com'', u_pathname = ''/test'', u_search = []\<rparr>,
          r_method = ''GET'', r_headers = [], r_body = None, r_timeout = 30000\<rparr>
        (configuredRetries ?spec) 0 [] = (Inr okResponse, 3, [1000, 2000])"
    by (simp only: r example_loop)
  have parsed: "parseResponse okResponse = Inr (JObj [(''success'', JBool True)])"
    by (simp add: parseResponse_def okResponse_def js_or_def)
  have post: "postProcess (stringifyPretty examplePlatform) ?spec ?tool (JObj [(''success'', JBool True)])
                = JObj [(''success'', JBool True)]"
    by (simp add: transform_defs specWithRequestConfig_def)
  show "invoke examplePlatform failsTwice ?spec ?tool (callWith [] [])
       = (Inr \<lparr>ir_status = 200, ir_statusText = ''OK'',
               ir_headers = [(''content-type'', ''application/json'')],
               ir_data = JObj [(''success'', JBool True)], ir_raw = okResponse\<rparr>, 3, [1000, 2000])"
    by (simp add: invoke_loop [OF example_request loop] parsed post) (simp add: okResponse_def)
qed


text \<open>
  An instance of each case: the fetch that throws twice, with two retries, and a fetch
  that always throws, with one retry.
\<close>

theorem C4_retry_with_backoff_witness:
  "0 \<le> configuredRetries (specWithRequestConfig (requestConfigFor ''https://api.example.com'' [] 2))
   \<and> failsTwice 2
        \<lparr>r_url = \<lparr>u_origin = ''https://api.example.com'', u_pathname = ''/test'', u_search = []\<rparr>,
          r_method = ''GET'', r_headers = [], r_body = None, r_timeout = 30000\<rparr> = Inr okResponse
   \<and> snd (invoke examplePlatform failsTwice
              (specWithRequestConfig (requestConfigFor ''https://api.example.com'' [] 2))
              (basicTool ''test-tool'' ''get'' ''/test'' no_extensions) (callWith [] []))
       = (3, [1000, 2000])
   \<and> invoke examplePlatform alwaysFails
        (specWithRequestConfig (requestConfigFor ''https://api.example.com'' [] 1))
        (basicTool ''test-tool'' ''get'' ''/test'' no_extensions) (callWith [] [])
       = (Inl (Failure ''Failed to invoke tool test-tool: connection refused''), 2, [1000])"
proof -
  let ?tool = "basicTool ''test-tool'' ''get'' ''/test'' no_extensions"
  let ?req = "\<lparr>r_url = \<lparr>u_origin = ''https://api.example.com'', u_pathname = ''/test'', u_search = []\<rparr>,
          r_method = ''GET'', r_headers = [], r_body = None, r_timeout = 30000\<rparr>"
  have r2: "configuredRetries (specWithRequestConfig (requestConfigFor ''https://api.example.com'' [] 2)) = 2"
    and r1: "configuredRetries (specWithRequestConfig (requestConfigFor ''https://api.example.com'' [] 1)) = 1"
    by (simp_all add: example_defs)
  have built1: "buildRequest examplePlatform
        (specWithRequestConfig (requestConfigFor ''https://api.example.com'' [] 1)) ?tool (callWith [] [])
      = Inr ?req"
    by (simp add: buildRequest_def buildTarget_def example_defs Let_def)
  have b2: "backoff 0 2 = [1000, 2000]"
    by (simp add: backoff_def upt_rec numeral_2_eq_2)
  have nm: "t_name ?tool = ''test-tool''" by (simp add: basicTool_def)
  have first: "snd (invoke examplePlatform failsTwice
              (specWithRequestConfig (requestConfigFor ''https://api.example.com'' [] 2))
              ?tool (callWith [] [])) = (3, [1000, 2000])"
    using C4_retry_with_backoff
      [where spec = "specWithRequestConfig (requestConfigFor ''https://api.example.com'' [] 2)"
         and pf = examplePlatform and fetch = failsTwice and extendTool = ?tool
         and params = "callWith [] []" and req = ?req and i = 2 and resp = okResponse]
      example_request
    by (simp add: r2 b2 failsTwice_def)
  have second: "invoke examplePlatform alwaysFails
        (specWithRequestConfig (requestConfigFor ''https://api.example.com'' [] 1)) ?tool (callWith [] [])
       = (Inl (Failure ''Failed to invoke tool test-tool: connection refused''), 2, [1000])"
    using C4_retry_with_backoff
      [where spec = "specWithRequestConfig (requestConfigFor ''https://api.example.com'' [] 1)"
         and pf = examplePlatform and fetch = alwaysFails and extendTool = ?tool
         and params = "callWith [] []" and req = ?req
         and messages = "\<lambda>j. ''connection refused''"]
      built1
    by (simp add: r1 nm alwaysFails_def backoff_def)
  show ?thesis using first second by (simp add: r2 failsTwice_def)
qed

subsection \<open>The path remapped to headers\<close>












subsection \<open>Sensitive parameters\<close>























subsection \<open>The Value Resolver and the request\<close>

text \<open>
  C2. \<^verbatim>\<open>invoke\<close> builds the request from the configured headers and the caller's
  parameters as they are: nothing in it calls the Value Resolver. At the input of the
  integration test \<^verbatim>\<open>invoke - with template variables\<close> the request carries the
  headers \<^verbatim>\<open>Bearer {API_KEY}\<close> and \<^verbatim>\<open>{USER_ID}\<close>, where the test expects
  \<^verbatim>\<open>Bearer test-api-key\<close> and \<^verbatim>\<open>user123\<close>, which is what
  \<^verbatim>\<open>processRequestValues\<close> makes of them. \<^verbatim>\<open>processRequestValues\<close> itself
  resolves the path and the input parameters under the empty environment: a later header
  sees the result of the header \<^verbatim>\<open>x-token\<close>, the parameters do not.
\<close>

theorem C2_invoke_sends_unresolved_values:
  "buildRequest examplePlatform templateTestSpec templateTestTool
       (callWith [(''USER_ID'', JStr ''{USER_ID}'')] [])
     = Inr \<lparr>r_url = \<lparr>u_origin = ''https://api.example.com'',
                      u_pathname = ''/user/{USER_ID}/profile'', u_search = []\<rparr>,
            r_method = ''GET'',
            r_headers = [(''Authorization'', ''Bearer {API_KEY}''), (''x-user-id'', ''{USER_ID}'')],
            r_body = None, r_timeout = 30000\<rparr>
   \<and> processRequestValues noSpawn templateTestEnv
         [(''Authorization'', ''Bearer {API_KEY}''), (''x-user-id'', ''{USER_ID}'')]
         [(''USER_ID'', JStr ''{USER_ID}'')] []
     = Inr ([(''Authorization'', ''Bearer test-api-key''), (''x-user-id'', ''user123'')],
            JObj [(''USER_ID'', JStr ''user123'')], JObj [])
   \<and> processRequestValues noSpawn Map.empty
         [(''x-token'', ''abc''), (''x-copy'', ''{x_token}'')]
         [(''id'', JStr ''{x_token}'')] [(''q'', JStr ''{x_token}'')]
     = Inr ([(''x-token'', ''abc''), (''x-copy'', ''abc'')],
            JObj [(''id'', JStr [])], JObj [(''q'', JStr [])])"
proof -
  have path: "filledPath examplePlatform templateTestTool (callWith [(''USER_ID'', JStr ''{USER_ID}'')] [])
                = ''/user/{USER_ID}/profile''"
    by (simp add: filledPath_def examplePlatform_def callWith_def templateTestTool_def stringValues_def
          template_defs char_classes)
  have request: "buildRequest examplePlatform templateTestSpec templateTestTool
       (callWith [(''USER_ID'', JStr ''{USER_ID}'')] [])
     = Inr \<lparr>r_url = \<lparr>u_origin = ''https://api.example.com'',
                      u_pathname = ''/user/{USER_ID}/profile'', u_search = []\<rparr>,
            r_method = ''GET'',
            r_headers = [(''Authorization'', ''Bearer {API_KEY}''), (''x-user-id'', ''{USER_ID}'')],
            r_body = None, r_timeout = 30000\<rparr>"
    unfolding buildRequest_def buildTarget_def targetOf_def Let_def path
    by (simp add: templateTestSpec_def templateTestTool_def specWithRequestConfig_def callWith_def
          requestConfigGlobal_def globalBaseUrl_def configuredHeaders_def baseAddress_def
          invokeMethod_def mergedInputParams_def lodash_extend_def sensitiveKV_def no_extensions_def
          truthy_def js_or_def pathStep_def proxyStep_def authStep_def examplePlatform_def
          toUpperCase_def toLowerCase_def upper_char_def lower_char_def lower_letters_def
          upper_letters_def)
  have resolved: "processRequestValues noSpawn templateTestEnv
         [(''Authorization'', ''Bearer {API_KEY}''), (''x-user-id'', ''{USER_ID}'')]
         [(''USER_ID'', JStr ''{USER_ID}'')] []
     = Inr ([(''Authorization'', ''Bearer test-api-key''), (''x-user-id'', ''user123'')],
            JObj [(''USER_ID'', JStr ''user123'')], JObj [])"
    by (simp add: processRequestValues_def templateTestEnv_def resolver_defs char_classes)
  have unshared: "processRequestValues noSpawn Map.empty
         [(''x-token'', ''abc''), (''x-copy'', ''{x_token}'')]
         [(''id'', JStr ''{x_token}'')] [(''q'', JStr ''{x_token}'')]
     = Inr ([(''x-token'', ''abc''), (''x-copy'', ''abc'')],
            JObj [(''id'', JStr [])], JObj [(''q'', JStr [])])"
    by (simp add: processRequestValues_def resolver_defs char_classes)
  show ?thesis using request resolved unshared by (intro conjI)
qed

subsection \<open>Signing without credentials\<close>

lemma requestConfigGlobal_withAuth:
  "requestConfigGlobal (withAuth a spec) = (requestConfigGlobal spec)\<lparr>auth_TencentCloudAuth := a\<rparr>"
  by (simp add: withAuth_def requestConfigGlobal_def)

lemma globalBaseUrl_withAuth: "globalBaseUrl (withAuth a spec) = globalBaseUrl spec"
  unfolding globalBaseUrl_def requestConfigGlobal_withAuth by (simp add: withAuth_def)

lemma configuredHeaders_withAuth: "configuredHeaders (withAuth a spec) = configuredHeaders spec"
  unfolding configuredHeaders_def requestConfigGlobal_withAuth by simp

lemma baseAddress_withAuth: "baseAddress (withAuth a spec) extendTool = baseAddress spec extendTool"
  unfolding baseAddress_def globalBaseUrl_withAuth by simp

lemma targetOf_withAuth:
  "targetOf pf (withAuth a spec) extendTool params u0 = targetOf pf spec extendTool params u0"
  unfolding targetOf_def configuredHeaders_withAuth by simp

lemma buildTarget_withAuth:
  "buildTarget pf (withAuth a spec) extendTool params = buildTarget pf spec extendTool params"
  unfolding buildTarget_def globalBaseUrl_withAuth baseAddress_withAuth targetOf_withAuth by simp

lemma proxyStep_withAuth:
  "proxyStep pf (withAuth a spec) u = proxyStep pf spec u"
  by (simp add: proxyStep_def requestConfigGlobal_withAuth)

lemma buildRequest_fails:
  "buildRequest pf spec extendTool params = Inl e
     \<longleftrightarrow> buildTarget pf spec extendTool params = Inl e
         \<or> (\<exists>tg. buildTarget pf spec extendTool params = Inr tg \<and> proxyStep pf spec (g_url tg) = Inl e)"
  by (simp add: buildRequest_def split: sum.splits)

lemma foldl_assign_head:
  "acc \<noteq> [] \<Longrightarrow> foldl (\<lambda>acc kv. assign acc (f kv) (g kv)) acc xs \<noteq> []
      \<and> fst (hd (foldl (\<lambda>acc kv. assign acc (f kv) (g kv)) acc xs)) = fst (hd acc)"
proof (induction xs arbitrary: acc)
  case Nil
  then show ?case by simp
next
  case (Cons x xs)
  obtain k v rest where acc: "acc = (k, v) # rest" using Cons.prems by (cases acc) auto
  have "assign acc (f x) (g x) \<noteq> [] \<and> fst (hd (assign acc (f x) (g x))) = fst (hd acc)"
    by (simp add: acc)
  then show ?case using Cons.IH [of "assign acc (f x) (g x)"] by simp
qed

lemma signature_head:
  "generateTencentCloudSignature pf m path' query headers body authConfig \<noteq> []
   \<and> fst (hd (generateTencentCloudSignature pf m path' query headers body authConfig)) = ''Authorization''"
proof -
  have key: "filter (\<lambda>kv. fst kv \<noteq> ''X-TC-Service'')
               (foldl (\<lambda>acc kv. assign acc (formatHeaderKey (fst kv)) (snd kv)) [(''Authorization'', a)] hs) \<noteq> []
             \<and> fst (hd (filter (\<lambda>kv. fst kv \<noteq> ''X-TC-Service'')
                  (foldl (\<lambda>acc kv. assign acc (formatHeaderKey (fst kv)) (snd kv)) [(''Authorization'', a)] hs)))
                 = ''Authorization''" for a :: string and hs :: "(string \<times> string) list"
  proof -
    let ?r = "foldl (\<lambda>acc kv. assign acc (formatHeaderKey (fst kv)) (snd kv)) [(''Authorization'', a)] hs"
    have h: "?r \<noteq> [] \<and> fst (hd ?r) = ''Authorization''"
      using foldl_assign_head [of "[(''Authorization'', a)]" "\<lambda>kv. formatHeaderKey (fst kv)" snd hs]
      by simp
    then obtain v rest where r: "?r = (''Authorization'', v) # rest"
      by (cases ?r) auto
    show ?thesis unfolding r by simp
  qed
  show ?thesis unfolding generateTencentCloudSignature_def Let_def by (rule key)
qed

lemma authStep_signed:
  "securityScheme_TencentCloudAuth spec \<Longrightarrow> auth_TencentCloudAuth (requestConfigGlobal spec) = Some a \<Longrightarrow>
     authStep pf spec extendTool tg \<noteq> [] \<and> fst (hd (authStep pf spec extendTool tg)) = ''Authorization''"
  unfolding authStep_def Let_def by (simp add: signature_head)


lemma missing_secretId:
  "generateTencentCloudSignature pf m path' query headers body (authConfig\<lparr>tc_secretId := None\<rparr>)
     = generateTencentCloudSignature pf m path' query headers body (authConfig\<lparr>tc_secretId := Some ''undefined''\<rparr>)"
proof (cases authConfig)
  case (fields secretId secretKey token service region version action)
  show ?thesis
    unfolding fields
    by (simp only: generateTencentCloudSignature_def tc_auth.simps jsString_def option.simps)
qed

lemma missing_secretKey:
  "generateTencentCloudSignature pf m path' query headers body (authConfig\<lparr>tc_secretKey := None\<rparr>)
     = generateTencentCloudSignature pf m path' query headers body (authConfig\<lparr>tc_secretKey := Some ''undefined''\<rparr>)"
proof (cases authConfig)
  case (fields secretId secretKey token service region version action)
  show ?thesis
    unfolding fields
    by (simp only: generateTencentCloudSignature_def tc_auth.simps jsString_def option.simps)
qed

text \<open>
  C9, as the claim states it: a signing request without a secret id and a secret key
  aborts with a configuration error. With the scheme declared and a signing
  configuration in which every field is missing, \<^verbatim>\<open>invoke\<close> builds the request: its
  \<^verbatim>\<open>Authorization\<close> header names the credential \<^verbatim>\<open>undefined\<close> and is signed with the
  key \<^verbatim>\<open>TC3undefined\<close>.
\<close>

theorem C9_missing_credentials_counterexample:
  "buildRequest examplePlatform (signedSpec noCredentials) (basicTool ''describe'' ''get'' ''/'' no_extensions)
       (callWith [] [])
     = Inr \<lparr>r_url = \<lparr>u_origin = ''https://cvm.example.com'', u_pathname = ''/'', u_search = []\<rparr>,
            r_method = ''GET'',
            r_headers =
              [(''Authorization'',
                ''TC3-HMAC-SHA256 Credential=undefined/1970-01-01/service/tc3_request, SignedHeaders=, Signature=''
                  @ hmacHex examplePlatform
                      (joinWith newline
                         [''TC3-HMAC-SHA256'', ''0'', ''1970-01-01/service/tc3_request'',
                          hashHex examplePlatform
                            (joinWith newline [''GET'', ''/'', [], [], [], hashHex examplePlatform []])])
                      (hmacRaw examplePlatform ''tc3_request''
                         (hmacRaw examplePlatform ''service''
                            (hmacRaw examplePlatform ''1970-01-01'' ''TC3undefined'')))),
               (''X-TC-Timestamp'', ''0'')],
            r_body = None, r_timeout = 30000\<rparr>"
  by code_simp

text \<open>
  C9, amended. \<^verbatim>\<open>generateTencentCloudSignature\<close> has no check of the credentials and
  returns header output for every signing request: the output is not empty and its first
  header is \<^verbatim>\<open>Authorization\<close>. A missing secret id, and a missing secret key, gives
  the output of the credential \<^verbatim>\<open>undefined\<close>. Whether \<^verbatim>\<open>invoke\<close> throws before the
  fetch does not depend on the signing configuration; and when the scheme is declared and
  a signing configuration is present, whatever its fields, every request that is built
  carries the adapter's output.
\<close>

theorem C9_signing_never_aborts:
  "generateTencentCloudSignature pf m path' query headers body authConfig \<noteq> []
   \<and> fst (hd (generateTencentCloudSignature pf m path' query headers body authConfig)) = ''Authorization''
   \<and> generateTencentCloudSignature pf m path' query headers body (authConfig\<lparr>tc_secretId := None\<rparr>)
       = generateTencentCloudSignature pf m path' query headers body (authConfig\<lparr>tc_secretId := Some ''undefined''\<rparr>)
   \<and> generateTencentCloudSignature pf m path' query headers body (authConfig\<lparr>tc_secretKey := None\<rparr>)
       = generateTencentCloudSignature pf m path' query headers body (authConfig\<lparr>tc_secretKey := Some ''undefined''\<rparr>)
   \<and> (buildRequest pf (withAuth a spec) extendTool params = Inl e
        \<longleftrightarrow> buildRequest pf spec extendTool params = Inl e)
   \<and> (securityScheme_TencentCloudAuth spec \<and> auth_TencentCloudAuth (requestConfigGlobal spec) = Some cfg
        \<and> buildRequest pf spec extendTool params = Inr req \<longrightarrow>
        r_headers req \<noteq> [] \<and> fst (hd (r_headers req)) = ''Authorization'')"
proof -
  have independent: "buildRequest pf (withAuth a spec) extendTool params = Inl e
        \<longleftrightarrow> buildRequest pf spec extendTool params = Inl e"
    unfolding buildRequest_fails buildTarget_withAuth proxyStep_withAuth ..
  have signed: "r_headers req \<noteq> [] \<and> fst (hd (r_headers req)) = ''Authorization''"
    if scheme: "securityScheme_TencentCloudAuth spec"
      and auth: "auth_TencentCloudAuth (requestConfigGlobal spec) = Some cfg"
      and req: "buildRequest pf spec extendTool params = Inr req"
  proof -
    obtain tg where "r_headers req = authStep pf spec extendTool tg"
      using req by (auto simp: buildRequest_def split: sum.splits)
    then show ?thesis using authStep_signed [OF scheme auth, of pf extendTool tg] by simp
  qed
  show ?thesis
    using signature_head [of pf m path' query headers body authConfig]
      missing_secretId [of pf m path' query headers body authConfig]
      missing_secretKey [of pf m path' query headers body authConfig]
      independent signed
    by blast
qed

text \<open>An instance: a signing configuration with a secret id and no secret key.\<close>

theorem C9_signing_never_aborts_witness:
  "securityScheme_TencentCloudAuth (signedSpec (noCredentials\<lparr>tc_secretId := Some ''AKID''\<rparr>))
   \<and> auth_TencentCloudAuth (requestConfigGlobal (signedSpec (noCredentials\<lparr>tc_secretId := Some ''AKID''\<rparr>)))
       = Some (noCredentials\<lparr>tc_secretId := Some ''AKID''\<rparr>)
   \<and> (\<exists>req. buildRequest examplePlatform (signedSpec (noCredentials\<lparr>tc_secretId := Some ''AKID''\<rparr>))
                (basicTool ''describe'' ''post'' ''/'' no_extensions) (callWith [] [(''Limit'', JNum 1)]) = Inr req
            \<and> r_headers req \<noteq> [] \<and> fst (hd (r_headers req)) = ''Authorization'')"
proof -
  let ?spec = "signedSpec (noCredentials\<lparr>tc_secretId := Some ''AKID''\<rparr>)"
  let ?tool = "basicTool ''describe'' ''post'' ''/'' no_extensions"
  let ?params = "callWith [] [(''Limit'', JNum 1)]"
  have scheme: "securityScheme_TencentCloudAuth ?spec"
    by (simp add: signedSpec_def withAuth_def)
  have auth: "auth_TencentCloudAuth (requestConfigGlobal ?spec) = Some (noCredentials\<lparr>tc_secretId := Some ''AKID''\<rparr>)"
    by (simp add: signedSpec_def withAuth_def requestConfigGlobal_def)
  have path: "filledPath examplePlatform ?tool ?params = ''/''"
    by (simp add: filledPath_def examplePlatform_def callWith_def basicTool_def stringValues_def)
  have "\<exists>req. buildRequest examplePlatform ?spec ?tool ?params = Inr req"
    unfolding buildRequest_def buildTarget_def path
    by (simp add: signedSpec_def withAuth_def specWithRequestConfig_def requestConfigFor_def
          requestConfigGlobal_def globalBaseUrl_def baseAddress_def truthy_def js_or_def proxyStep_def
          basicTool_def no_extensions_def examplePlatform_def)
  then obtain req where req: "buildRequest examplePlatform ?spec ?tool ?params = Inr req" ..
  have "r_headers req \<noteq> [] \<and> fst (hd (r_headers req)) = ''Authorization''"
    using C9_signing_never_aborts
      [where pf = examplePlatform and spec = "?spec" and extendTool = "?tool" and params = "?params"
         and cfg = "noCredentials\<lparr>tc_secretId := Some ''AKID''\<rparr>" and req = req,
       THEN conjunct2, THEN conjunct2, THEN conjunct2, THEN conjunct2, THEN conjunct2, THEN mp]
      scheme auth req
    by (intro conjI) simp_all
  then show ?thesis using scheme auth req by blast
qed

end
